theory Spec2Isabelle
  imports Complex_Main "HOL-Library.Word"
begin

section \<open>JavaScript numbers and strings\<close>

text \<open>
  The program is JavaScript. Integers that the code uses as array indices are modelled
  as \<open>int\<close>; times (milliseconds, fractional) and audio features are modelled as
  \<open>real\<close>, the exact-arithmetic reading of the IEEE doubles of the source.

  The remainder operator \<open>%\<close> of JavaScript truncates: the result has the sign of the
  dividend. For a zero divisor the source yields NaN; no divisor of this program is zero.
\<close>

definition js_rem :: "int \<Rightarrow> int \<Rightarrow> int" where
  "js_rem a b = sgn a * (\<bar>a\<bar> mod \<bar>b\<bar>)"

text \<open>\<open>clamp01\<close> (both source files): \<open>Math.max(0, Math.min(1, x))\<close>.\<close>

definition clamp01 :: "real \<Rightarrow> real" where
  "clamp01 x = max 0 (min 1 x)"

section \<open>The preset scheduler (\<open>createHydraController\<close>)\<close>

text \<open>
  The eight preset functions draw on the external render engine; what the scheduler can
  observe of one invocation is whether it returns or throws. A preset is therefore a
  function from the trace of render-target calls so far to that outcome, and the eight
  bodies are a parameter \<open>ps\<close> of the model. \<open>presets.length\<close> is 8: the array literal
  holds eight arrow functions.
\<close>

datatype outcome = Returns | Throws

datatype event = Solid | Invoke nat

type_synonym preset = "event list \<Rightarrow> outcome"

datatype error = TypeError | RenderPassFault

definition presets_length :: int where
  "presets_length = 8"

text \<open>\<open>presets[i]\<close>: \<open>undefined\<close> (here \<open>None\<close>) outside the array.\<close>

definition presets_at :: "(nat \<Rightarrow> preset) \<Rightarrow> int \<Rightarrow> preset option" where
  "presets_at ps i = (if 0 \<le> i \<and> i < presets_length then Some (ps (nat i)) else None)"

text \<open>
  The closure variables \<open>idx\<close> and \<open>presetTimer\<close>, together with the part of the host
  that the scheduler acts on: the table of live intervals whose callback is the rotation
  callback (handle and period), the next handle \<open>setInterval\<close> will return, the
  trace of calls made on the render target, and the lines the controller writes to the
  console. The code of \<open>createHydraController\<close> holds no call of \<open>console.log\<close> or
  \<open>console.error\<close> and no \<open>try\<close>, so no function below writes \<open>console\<close>.
\<close>

record scheduler =
  idx :: int
  presetTimer :: "nat option"
  intervals :: "(nat \<times> nat) list"
  nextHandle :: nat
  target :: "event list"
  console :: "string list"

text \<open>The state right after \<open>createHydraController\<close>: \<open>idx = 0\<close>, \<open>presetTimer = null\<close>.
  Handles returned by \<open>setInterval\<close> are positive integers.\<close>

definition scheduler_init :: scheduler where
  "scheduler_init =
     \<lparr>idx = 0, presetTimer = None, intervals = [], nextHandle = 1, target = [], console = []\<rparr>"

definition setInterval :: "nat \<Rightarrow> scheduler \<Rightarrow> nat \<times> scheduler" where
  "setInterval ms s =
     (nextHandle s,
      s\<lparr>intervals := intervals s @ [(nextHandle s, ms)], nextHandle := Suc (nextHandle s)\<rparr>)"

definition clearInterval :: "nat \<Rightarrow> scheduler \<Rightarrow> scheduler" where
  "clearInterval h s = s\<lparr>intervals := filter (\<lambda>e. fst e \<noteq> h) (intervals s)\<rparr>"

text \<open>Truthiness of \<open>presetTimer\<close> in \<open>if (presetTimer)\<close>: \<open>null\<close> and \<open>0\<close> are falsy.\<close>

definition truthy_handle :: "nat option \<Rightarrow> bool" where
  "truthy_handle t = (case t of None \<Rightarrow> False | Some h \<Rightarrow> h \<noteq> 0)"

text \<open>
  \<open>runPreset(i)\<close>: the assignment to \<open>idx\<close> and the clear pass happen before the preset is
  looked up and called, so they persist when the call throws. Calling \<open>undefined\<close>
  throws a TypeError.
\<close>

definition runPreset :: "(nat \<Rightarrow> preset) \<Rightarrow> int \<Rightarrow> scheduler \<Rightarrow> scheduler \<times> (error + unit)" where
  "runPreset ps i s =
     (let s1 = s\<lparr>idx := js_rem (i + presets_length) presets_length\<rparr>;
          s2 = s1\<lparr>target := target s1 @ [Solid]\<rparr>
      in case presets_at ps (idx s2) of
           None \<Rightarrow> (s2, Inl TypeError)
         | Some p \<Rightarrow>
             (case p (target s2) of
                Throws \<Rightarrow> (s2\<lparr>target := target s2 @ [Invoke (nat (idx s2))]\<rparr>, Inl RenderPassFault)
              | Returns \<Rightarrow> (s2\<lparr>target := target s2 @ [Invoke (nat (idx s2))]\<rparr>, Inr ())))"

text \<open>
  \<open>startScheduler(ms)\<close>, statement by statement. An exception of \<open>runPreset(0)\<close> leaves
  the function before the two timer statements.
\<close>

definition start_clear :: "scheduler \<Rightarrow> scheduler" where
  "start_clear s =
     (if truthy_handle (presetTimer s) then clearInterval (the (presetTimer s)) s else s)"

definition start_set :: "nat \<Rightarrow> scheduler \<Rightarrow> scheduler" where
  "start_set ms s = (case setInterval ms s of (h, s') \<Rightarrow> s'\<lparr>presetTimer := Some h\<rparr>)"

definition startScheduler :: "(nat \<Rightarrow> preset) \<Rightarrow> nat \<Rightarrow> scheduler \<Rightarrow> scheduler \<times> (error + unit)" where
  "startScheduler ps ms s =
     (case runPreset ps 0 s of
        (s1, Inl e) \<Rightarrow> (s1, Inl e)
      | (s1, Inr u) \<Rightarrow> (start_set ms (start_clear s1), Inr ()))"

text \<open>The rotation callback \<open>() => runPreset(idx + 1)\<close>.\<close>

definition timer_callback :: "(nat \<Rightarrow> preset) \<Rightarrow> scheduler \<Rightarrow> scheduler \<times> (error + unit)" where
  "timer_callback ps s = runPreset ps (idx s + 1) s"

text \<open>
  One scheduled advance: the host calls the rotation callback. An exception that leaves
  the callback is reported by the host, which keeps the interval; the state the
  callback left behind stays.
\<close>

definition tick :: "(nat \<Rightarrow> preset) \<Rightarrow> scheduler \<Rightarrow> scheduler" where
  "tick ps s = fst (timer_callback ps s)"

definition getPresetIndex :: "scheduler \<Rightarrow> int" where
  "getPresetIndex s = idx s"

text \<open>
  Calls made on the controller over its lifetime: \<open>startScheduler(ms)\<close>, a firing of the
  rotation interval, and \<open>runPreset(i)\<close> from outside. An exception leaves the call; the
  state it left behind is the state the next call sees.
\<close>

datatype call = Start nat | Fire | Run int

fun exec1 :: "(nat \<Rightarrow> preset) \<Rightarrow> call \<Rightarrow> scheduler \<Rightarrow> scheduler" where
  "exec1 ps (Start ms) s = fst (startScheduler ps ms s)"
| "exec1 ps Fire s = (if intervals s = [] then s else tick ps s)"
| "exec1 ps (Run i) s = fst (runPreset ps i s)"

fun exec :: "(nat \<Rightarrow> preset) \<Rightarrow> call list \<Rightarrow> scheduler \<Rightarrow> scheduler" where
  "exec ps [] s = s"
| "exec ps (c # cs) s = exec ps cs (exec1 ps c s)"

text \<open>
  What holds of the timer variable and the host's table in every state the controller
  reaches: the table holds exactly the interval \<open>presetTimer\<close> names, if any.
\<close>

definition timer_inv :: "scheduler \<Rightarrow> bool" where
  "timer_inv s =
     (0 < nextHandle s \<and>
      (case presetTimer s of
         None \<Rightarrow> intervals s = []
       | Some h \<Rightarrow> 0 < h \<and> h < nextHandle s \<and> map fst (intervals s) = [h]))"

text \<open>Preset behaviours used as concrete inputs.\<close>

definition always_returns :: "nat \<Rightarrow> preset" where
  "always_returns k t = Returns"

definition always_throws :: "nat \<Rightarrow> preset" where
  "always_throws k t = Throws"

definition throws_after_first :: "nat \<Rightarrow> preset" where
  "throws_after_first k t = (if 2 \<le> length t then Throws else Returns)"

section \<open>Audio features (class \<open>AudioInput\<close>)\<close>

text \<open>
  The fields of an \<open>AudioInput\<close>. \<open>analyser\<close> records whether \<open>this.analyser\<close> has been
  set by \<open>start()\<close>; \<open>smooth\<close> is \<open>this._smooth\<close>. The two byte buffers
  (\<open>Uint8Array\<close>) that the analyser fills on each update are arguments of the model.
\<close>

record audioInput =
  analyser :: bool
  level :: real
  bass :: real
  mid :: real
  treble :: real
  smooth :: real

text \<open>The constructor.\<close>

definition AudioInput_new :: audioInput where
  "AudioInput_new = \<lparr>analyser = False, level = 0, bass = 0, mid = 0, treble = 0, smooth = 85 / 100\<rparr>"

text \<open>Reading one element of a \<open>Uint8Array\<close> as a number.\<close>

definition byte :: "8 word \<Rightarrow> real" where
  "byte w = real (unat w)"

text \<open>
  The loop that sums the squares of the centred samples, and \<open>nextLevel\<close>:
  \<open>Math.min(1, Math.sqrt(sum / length) * 2.0)\<close>. With an empty buffer the source divides
  zero by zero and the level becomes NaN, here \<open>None\<close>.
\<close>

fun rms_loop :: "8 word list \<Rightarrow> real \<Rightarrow> real" where
  "rms_loop [] acc = acc"
| "rms_loop (x # xs) acc = rms_loop xs (acc + ((byte x - 128) / 128) * ((byte x - 128) / 128))"

definition nextLevel :: "8 word list \<Rightarrow> real option" where
  "nextLevel dataTime =
     (if dataTime = [] then None
      else Some (min 1 (sqrt (rms_loop dataTime 0 / real (length dataTime)) * 2)))"

text \<open>The band limits \<open>b1 = Math.floor(n * 0.15)\<close> and \<open>m1 = Math.floor(n * 0.55)\<close>.\<close>

definition band_b1 :: "nat \<Rightarrow> nat" where
  "band_b1 n = nat \<lfloor>real n * (15 / 100)\<rfloor>"

definition band_m1 :: "nat \<Rightarrow> nat" where
  "band_m1 n = nat \<lfloor>real n * (55 / 100)\<rfloor>"

text \<open>
  The closure \<open>avg(from, to)\<close>: the loop adds \<open>dataFreq[i]\<close> for \<open>from \<le> i < to\<close>; a read
  outside the buffer gives \<open>undefined\<close> and turns the sum into NaN, here \<open>None\<close>. The
  divisor is \<open>Math.max(1, to - from)\<close>.
\<close>

function avg_loop :: "8 word list \<Rightarrow> nat \<Rightarrow> nat \<Rightarrow> real \<Rightarrow> real option" where
  "avg_loop d i to s =
     (if i < to
      then (if i < length d then avg_loop d (Suc i) to (s + byte (d ! i)) else None)
      else Some s)"
  by pat_completeness auto
termination
  by (relation "measure (\<lambda>(d, i, to, s). to - i)") auto

declare avg_loop.simps [simp del]

definition avg_divisor :: "nat \<Rightarrow> nat \<Rightarrow> real" where
  "avg_divisor from to = max 1 (real to - real from)"

definition avg :: "8 word list \<Rightarrow> nat \<Rightarrow> nat \<Rightarrow> real option" where
  "avg d from to =
     (case avg_loop d from to 0 of
        None \<Rightarrow> None
      | Some s \<Rightarrow> Some ((s / avg_divisor from to) / 255))"

text \<open>The four values \<open>nextLevel\<close>, \<open>nextBass\<close>, \<open>nextMid\<close>, \<open>nextTreble\<close> of one update.\<close>

record raw_features =
  nextLevelV :: real
  nextBass :: real
  nextMid :: real
  nextTreble :: real

definition extract_features :: "8 word list \<Rightarrow> 8 word list \<Rightarrow> raw_features option" where
  "extract_features dataTime dataFreq =
     (let n = length dataFreq; b0 = 0; b1 = band_b1 n; m1 = band_m1 n; t1 = n
      in case nextLevel dataTime of None \<Rightarrow> None | Some l \<Rightarrow>
         (case avg dataFreq b0 b1 of None \<Rightarrow> None | Some b \<Rightarrow>
         (case avg dataFreq b1 m1 of None \<Rightarrow> None | Some m \<Rightarrow>
         (case avg dataFreq m1 t1 of None \<Rightarrow> None | Some t \<Rightarrow>
            Some \<lparr>nextLevelV = l, nextBass = b, nextMid = m, nextTreble = t\<rparr>))))"

text \<open>The four smoothing assignments at the end of \<open>update()\<close>.\<close>

definition smoothing :: "raw_features \<Rightarrow> audioInput \<Rightarrow> audioInput" where
  "smoothing r a =
     (let k = smooth a
      in a\<lparr>level := level a * k + nextLevelV r * (1 - k),
           bass := bass a * k + nextBass r * (1 - k),
           mid := mid a * k + nextMid r * (1 - k),
           treble := treble a * k + nextTreble r * (1 - k)\<rparr>)"

text \<open>\<open>update()\<close>: nothing happens while there is no analyser.\<close>

definition AudioInput_update :: "8 word list \<Rightarrow> 8 word list \<Rightarrow> audioInput \<Rightarrow> audioInput option" where
  "AudioInput_update dataTime dataFreq a =
     (if \<not> analyser a then Some a
      else case extract_features dataTime dataFreq of None \<Rightarrow> None | Some r \<Rightarrow> Some (smoothing r a))"

text \<open>
  A sequence approaches \<open>c\<close> monotonically: from below it never decreases and never
  passes \<open>c\<close>, from above it never increases and never passes \<open>c\<close>, and it converges
  to \<open>c\<close>.
\<close>

abbreviation approaches :: "(nat \<Rightarrow> real) \<Rightarrow> real \<Rightarrow> bool" where
  "approaches x c \<equiv>
     (x 0 \<le> c \<longrightarrow> (\<forall>n. x n \<le> x (Suc n) \<and> x n \<le> c)) \<and>
     (c \<le> x 0 \<longrightarrow> (\<forall>n. x (Suc n) \<le> x n \<and> c \<le> x n)) \<and>
     x \<longlonglongrightarrow> c"

section \<open>The verse overlay (\<open>createVerseOverlay\<close>)\<close>

text \<open>
  A JavaScript string is a sequence of UTF-16 code units; \<open>length\<close>, \<open>slice\<close> and
  \<open>split\<close> count code units. \<open>js\<close> turns an ASCII literal into such a string. The
  characters of the source outside ASCII are single code units: the quotation marks
  8220 and 8221, the em dash 8212 and the en dash 8211.
\<close>

type_synonym jsstring = "nat list"

definition js :: "string \<Rightarrow> jsstring" where
  "js s = map of_char s"

text \<open>The table \<open>verses\<close>.\<close>

record verse =
  vref :: jsstring
  vtext :: jsstring

definition verses :: "verse list" where
  "verses =
    [\<lparr>vref = js ''Psalm 119:105'',
      vtext = js ''Thy word is a lamp unto my feet, and a light unto my path.''\<rparr>,
     \<lparr>vref = js ''Proverbs 3:5'' @ [8211] @ js ''6'',
      vtext = js ''Trust in the LORD with all thine heart; and lean not unto thine own understanding. In all thy ways acknowledge him, and he shall direct thy paths.''\<rparr>,
     \<lparr>vref = js ''Isaiah 41:10'',
      vtext = js ''Fear thou not; for I am with thee: be not dismayed; for I am thy God: I will strengthen thee; yea, I will help thee; yea, I will uphold thee with the right hand of my righteousness.''\<rparr>,
     \<lparr>vref = js ''Matthew 11:28'',
      vtext = js ''Come unto me, all ye that labour and are heavy laden, and I will give you rest.''\<rparr>,
     \<lparr>vref = js ''John 14:6'',
      vtext = js ''Jesus saith unto him, I am the way, the truth, and the life: no man cometh unto the Father, but by me.''\<rparr>,
     \<lparr>vref = js ''Romans 8:28'',
      vtext = js ''And we know that all things work together for good to them that love God, to them who are the called according to his purpose.''\<rparr>,
     \<lparr>vref = js ''2 Timothy 1:7'',
      vtext = js ''For God hath not given us the spirit of fear; but of power, and of love, and of a sound mind.''\<rparr>,
     \<lparr>vref = js ''Philippians 4:6'' @ [8211] @ js ''7'',
      vtext = js ''Be careful for nothing; but in every thing by prayer and supplication with thanksgiving let your requests be made known unto God. And the peace of God, which passeth all understanding, shall keep your hearts and minds through Christ Jesus.''\<rparr>]"

text \<open>\<open>CONFIG.palette\<close> and \<open>CONFIG.verse\<close> of the main module, the arguments the overlay is
  created with.\<close>

record colour =
  cname :: string
  hex :: string

definition CONFIG_palette :: "colour list" where
  "CONFIG_palette =
    [\<lparr>cname = ''Sardius'', hex = ''#A81919''\<rparr>, \<lparr>cname = ''Vermilion'', hex = ''#894014''\<rparr>,
     \<lparr>cname = ''Amber'', hex = ''#675210''\<rparr>, \<lparr>cname = ''Topaz'', hex = ''#50590D''\<rparr>,
     \<lparr>cname = ''Chrysolyte'', hex = ''#365E0E''\<rparr>, \<lparr>cname = ''Emerald'', hex = ''#19620F''\<rparr>,
     \<lparr>cname = ''Chrysoprasus'', hex = ''#0F6224''\<rparr>, \<lparr>cname = ''Beryl'', hex = ''#0E6042''\<rparr>,
     \<lparr>cname = ''Crystal'', hex = ''#0E5E5E''\<rparr>, \<lparr>cname = ''Chalcedony'', hex = ''#145A83''\<rparr>,
     \<lparr>cname = ''Sapphire'', hex = ''#1E48C7''\<rparr>, \<lparr>cname = ''Jacinth'', hex = ''#3F25F6''\<rparr>,
     \<lparr>cname = ''Purple'', hex = ''#751ECB''\<rparr>, \<lparr>cname = ''Amethyst'', hex = ''#8F18A0''\<rparr>,
     \<lparr>cname = ''Scarlet'', hex = ''#9C177A''\<rparr>, \<lparr>cname = ''Crimson'', hex = ''#A3194D''\<rparr>]"

record verseConfig =
  msPerChar :: real
  holdMs :: real
  fadeMs :: real
  gapMs :: real

definition CONFIG_verse :: verseConfig where
  "CONFIG_verse = \<lparr>msPerChar = 28, holdMs = 9000, fadeMs = 1000, gapMs = 600\<rparr>"

text \<open>
  \<open>pickPalette\<close>: \<open>palette[Math.floor(Math.random() * palette.length)]\<close>. The random number,
  at least 0 and below 1, is an argument; an index outside the array reads \<open>undefined\<close>,
  here \<open>None\<close>.
\<close>

definition pickPalette :: "'a list \<Rightarrow> real \<Rightarrow> 'a option" where
  "pickPalette palette rnd =
     (let i = \<lfloor>rnd * real (length palette)\<rfloor>
      in if 0 \<le> i \<and> i < int (length palette) then Some (palette ! nat i) else None)"

text \<open>The closure variables of the overlay; a timestamp that is 0 is one not yet set.\<close>

record overlay =
  verseIndex :: nat
  current :: verse
  accent :: "colour option"
  startMs :: real
  revealDoneMs :: real
  fadeStartMs :: real
  cycleDoneMs :: real

text \<open>The state when \<open>setup\<close> has run: \<open>startMs\<close> is the time \<open>p.millis()\<close> gave there.\<close>

definition overlay_init :: "colour list \<Rightarrow> real \<Rightarrow> real \<Rightarrow> overlay" where
  "overlay_init palette rnd setupMs =
     \<lparr>verseIndex = 0, current = verses ! 0, accent = pickPalette palette rnd,
      startMs = setupMs, revealDoneMs = 0, fadeStartMs = 0, cycleDoneMs = 0\<rparr>"

definition nextVerse :: "colour list \<Rightarrow> real \<Rightarrow> real \<Rightarrow> overlay \<Rightarrow> overlay" where
  "nextVerse palette rnd nowMs s =
     (let i = (verseIndex s + 1) mod length verses
      in s\<lparr>verseIndex := i, current := verses ! i, accent := pickPalette palette rnd,
           startMs := nowMs, revealDoneMs := 0, fadeStartMs := 0, cycleDoneMs := 0\<rparr>)"

definition buildFullText :: "verse \<Rightarrow> jsstring" where
  "buildFullText v = [8220] @ vtext v @ [8221] @ [10, 10] @ [8212, 32] @ vref v"

text \<open>
  The steps of \<open>p.draw\<close> that read or write the state: the number of characters shown, the
  latch of the three timestamps, the opacity, and the advance to the next verse.
\<close>

definition charsVisible :: "verseConfig \<Rightarrow> real \<Rightarrow> overlay \<Rightarrow> int" where
  "charsVisible cfg now s = \<lfloor>(now - startMs s) / msPerChar cfg\<rfloor>"

definition totalChars :: "overlay \<Rightarrow> int" where
  "totalChars s = int (length (buildFullText (current s)))"

definition reveal_latch :: "verseConfig \<Rightarrow> real \<Rightarrow> overlay \<Rightarrow> overlay" where
  "reveal_latch cfg now s =
     (if totalChars s \<le> charsVisible cfg now s \<and> revealDoneMs s = 0
      then let s1 = s\<lparr>revealDoneMs := now\<rparr>;
               s2 = s1\<lparr>fadeStartMs := revealDoneMs s1 + holdMs cfg\<rparr>
           in s2\<lparr>cycleDoneMs := fadeStartMs s2 + fadeMs cfg + gapMs cfg\<rparr>
      else s)"

definition alpha_envelope :: "verseConfig \<Rightarrow> real \<Rightarrow> overlay \<Rightarrow> real" where
  "alpha_envelope cfg now s =
     (if fadeStartMs s \<noteq> 0 \<and> fadeStartMs s \<le> now
      then 1 - clamp01 ((now - fadeStartMs s) / fadeMs cfg)
      else 1)"

definition cycle_advance :: "colour list \<Rightarrow> real \<Rightarrow> real \<Rightarrow> overlay \<Rightarrow> overlay" where
  "cycle_advance palette rnd now s =
     (if cycleDoneMs s \<noteq> 0 \<and> cycleDoneMs s \<le> now then nextVerse palette rnd now s else s)"

text \<open>
  Line wrapping. \<open>is_ws\<close> is the whitespace class of regular expressions, which is also what
  \<open>trim\<close> removes; \<open>split_nl\<close> splits at line feeds (code unit 10) and \<open>split_ws\<close> splits
  at runs of whitespace, as \<open>split\<close> does with a regular expression.
  The width of a string in the current text style, \<open>p.textWidth\<close>, is an argument.
\<close>

definition is_ws :: "nat \<Rightarrow> bool" where
  "is_ws c = (c \<in> set [9, 10, 11, 12, 13, 32, 160, 5760, 8232, 8233, 8239, 8287, 12288, 65279]
              \<or> (8192 \<le> c \<and> c \<le> 8202))"

definition trim :: "jsstring \<Rightarrow> jsstring" where
  "trim str = rev (dropWhile is_ws (rev (dropWhile is_ws str)))"

fun split_nl :: "jsstring \<Rightarrow> jsstring list" where
  "split_nl [] = [[]]"
| "split_nl (c # cs) =
     (if c = 10 then [] # split_nl cs
      else (case split_nl cs of [] \<Rightarrow> [[c]] | p # ps \<Rightarrow> (c # p) # ps))"

function split_ws :: "jsstring \<Rightarrow> jsstring list" where
  "split_ws [] = [[]]"
| "split_ws (c # cs) =
     (if is_ws c then [] # split_ws (dropWhile is_ws cs)
      else (case split_ws cs of [] \<Rightarrow> [[c]] | w # ws \<Rightarrow> (c # w) # ws))"
  by pat_completeness auto
termination
  by (relation "measure length") (auto simp: length_dropWhile_le less_Suc_eq_le)

text \<open>The inner loop of \<open>wrapLines\<close> over the words of one paragraph, with the variables
  \<open>line\<close> and \<open>lines\<close>; then the outer loop over the paragraphs.\<close>

fun wrap_words ::
  "(jsstring \<Rightarrow> real) \<Rightarrow> real \<Rightarrow> jsstring list \<Rightarrow> jsstring \<Rightarrow> jsstring list \<Rightarrow> jsstring list \<times> jsstring"
where
  "wrap_words textWidth maxWidth [] line lines = (lines, line)"
| "wrap_words textWidth maxWidth (w # ws) line lines =
     (let test = (if line \<noteq> [] then line @ [32] @ w else w)
      in if textWidth test \<le> maxWidth
         then wrap_words textWidth maxWidth ws test lines
         else wrap_words textWidth maxWidth ws w (if line \<noteq> [] then lines @ [line] else lines))"

fun wrap_paragraphs ::
  "(jsstring \<Rightarrow> real) \<Rightarrow> real \<Rightarrow> jsstring list \<Rightarrow> jsstring list \<Rightarrow> jsstring list"
where
  "wrap_paragraphs textWidth maxWidth [] lines = lines"
| "wrap_paragraphs textWidth maxWidth (para # paras) lines =
     (if trim para = [] then wrap_paragraphs textWidth maxWidth paras (lines @ [[]])
      else (case wrap_words textWidth maxWidth (split_ws para) [] lines of
              (lines', line) \<Rightarrow>
                wrap_paragraphs textWidth maxWidth paras
                  (if line \<noteq> [] then lines' @ [line] else lines')))"

definition wrapLines :: "(jsstring \<Rightarrow> real) \<Rightarrow> jsstring \<Rightarrow> real \<Rightarrow> jsstring list" where
  "wrapLines textWidth str maxWidth = wrap_paragraphs textWidth maxWidth (split_nl str) []"

text \<open>\<open>str.slice(0, e)\<close>: a negative end counts from the end of the string.\<close>

definition slice0 :: "jsstring \<Rightarrow> int \<Rightarrow> jsstring" where
  "slice0 str e = (if e < 0 then take (nat (int (length str) + e)) str else take (nat e) str)"

text \<open>
  One call of \<open>p.draw\<close> at time \<open>now\<close>: the new state, and what the frame shows of it (the
  opacity and the wrapped lines of the visible text). The drawing calls themselves do
  not touch the state.
\<close>

record frame =
  alpha :: real
  textLines :: "jsstring list"

definition draw ::
  "(jsstring \<Rightarrow> real) \<Rightarrow> real \<Rightarrow> verseConfig \<Rightarrow> colour list \<Rightarrow> real \<Rightarrow> real \<Rightarrow> overlay
     \<Rightarrow> overlay \<times> frame"
where
  "draw textWidth maxW cfg palette rnd now s =
     (let full = buildFullText (current s);
          s1 = reveal_latch cfg now s;
          a = alpha_envelope cfg now s1;
          s2 = cycle_advance palette rnd now s1;
          visibleText = slice0 full (min (totalChars s) (charsVisible cfg now s))
      in (s2, \<lparr>alpha = a, textLines = wrapLines textWidth visibleText maxW\<rparr>))"

text \<open>A run of frames, each with its random number and its time.\<close>

fun draws ::
  "(jsstring \<Rightarrow> real) \<Rightarrow> real \<Rightarrow> verseConfig \<Rightarrow> colour list \<Rightarrow> (real \<times> real) list \<Rightarrow> overlay
     \<Rightarrow> overlay"
where
  "draws textWidth maxW cfg palette [] s = s"
| "draws textWidth maxW cfg palette ((rnd, now) # ticks) s =
     draws textWidth maxW cfg palette ticks (fst (draw textWidth maxW cfg palette rnd now s))"

text \<open>
  For stating what \<open>wrapLines\<close> returns: words joined by single spaces, the lines that
  one paragraph contributes, and the non-empty words of a list.
\<close>

fun join_sp :: "jsstring list \<Rightarrow> jsstring" where
  "join_sp [] = []"
| "join_sp [w] = w"
| "join_sp (w # v # ws) = w @ [32] @ join_sp (v # ws)"

definition para_lines :: "(jsstring \<Rightarrow> real) \<Rightarrow> real \<Rightarrow> jsstring \<Rightarrow> jsstring list" where
  "para_lines textWidth maxWidth para =
     (if trim para = [] then [[]]
      else (case wrap_words textWidth maxWidth (split_ws para) [] [] of
              (lines, line) \<Rightarrow> if line \<noteq> [] then lines @ [line] else lines))"

abbreviation nonempty :: "jsstring list \<Rightarrow> jsstring list" where
  "nonempty ws \<equiv> filter (\<lambda>w. w \<noteq> []) ws"

text \<open>A width service used for concrete inputs: every code unit is one unit wide.\<close>

definition mono_width :: "jsstring \<Rightarrow> real" where
  "mono_width str = real (length str)"

section \<open>Properties of the scheduler\<close>

lemma js_rem_nonneg: "0 \<le> a \<Longrightarrow> 0 < b \<Longrightarrow> js_rem a b = a mod b"
  by (cases "a = 0") (simp_all add: js_rem_def)

lemma idx_runPreset: "idx (fst (runPreset ps i s)) = js_rem (i + presets_length) presets_length"
  by (simp add: runPreset_def Let_def split: option.splits outcome.splits)

lemma idx_runPreset_floor:
  assumes "- presets_length \<le> i"
  shows "idx (fst (runPreset ps i s)) = i mod presets_length"
proof -
  have "0 \<le> i + presets_length" using assms by simp
  then have "js_rem (i + presets_length) presets_length = (i + presets_length) mod presets_length"
    by (rule js_rem_nonneg) (simp add: presets_length_def)
  then show ?thesis by (simp add: idx_runPreset)
qed

lemma idx_startScheduler: "idx (fst (startScheduler ps ms s)) = 0"
proof -
  have r: "idx (fst (runPreset ps 0 s)) = 0"
    using idx_runPreset_floor [of 0 ps s] by (simp add: presets_length_def)
  show ?thesis
  proof (cases "runPreset ps 0 s")
    case (Pair s1 res)
    with r have i1: "idx s1 = 0" by simp
    show ?thesis
    proof (cases res)
      case (Inl e)
      with Pair i1 show ?thesis by (simp add: startScheduler_def)
    next
      case (Inr u)
      with Pair i1 show ?thesis
        by (simp add: startScheduler_def start_set_def start_clear_def setInterval_def
            clearInterval_def)
    qed
  qed
qed

lemma idx_tick:
  assumes "0 \<le> idx s"
  shows "idx (tick ps s) = (idx s + 1) mod presets_length"
  using assms idx_runPreset_floor [of "idx s + 1" ps s]
  by (simp add: tick_def timer_callback_def presets_length_def)

lemma idx_ticks:
  assumes "0 \<le> idx s" and "idx s < presets_length"
  shows "idx ((tick ps ^^ k) s) = (idx s + int k) mod presets_length"
proof (induction k)
  case 0
  from assms show ?case by simp
next
  case (Suc k)
  have nn: "0 \<le> idx ((tick ps ^^ k) s)"
    by (simp add: Suc.IH presets_length_def)
  have "idx ((tick ps ^^ Suc k) s) = (idx ((tick ps ^^ k) s) + 1) mod presets_length"
    using idx_tick [OF nn] by simp
  also have "\<dots> = ((idx s + int k) mod presets_length + 1) mod presets_length"
    by (simp only: Suc.IH)
  also have "\<dots> = (idx s + int (Suc k)) mod presets_length"
    by (simp add: mod_simps ac_simps)
  finally show ?case .
qed

lemma runPreset_timer:
  "presetTimer (fst (runPreset ps i s)) = presetTimer s \<and>
   intervals (fst (runPreset ps i s)) = intervals s \<and>
   nextHandle (fst (runPreset ps i s)) = nextHandle s"
  by (simp add: runPreset_def Let_def split: option.splits outcome.splits)

lemma runPreset_target:
  assumes "- presets_length \<le> i"
  shows "target (fst (runPreset ps i s)) = target s @ [Solid, Invoke (nat (i mod presets_length))]"
proof -
  have "0 \<le> i + presets_length" using assms by simp
  then have e: "js_rem (i + presets_length) presets_length = i mod presets_length"
    using js_rem_nonneg [of "i + presets_length" presets_length] by (simp add: presets_length_def)
  have "0 \<le> i mod presets_length" "i mod presets_length < presets_length"
    by (simp_all add: presets_length_def)
  then show ?thesis
    by (simp add: runPreset_def Let_def presets_at_def e split: outcome.splits)
qed

lemma tick_timer:
  "presetTimer (tick ps s) = presetTimer s \<and> intervals (tick ps s) = intervals s \<and>
   nextHandle (tick ps s) = nextHandle s"
  by (simp add: tick_def timer_callback_def runPreset_timer)

lemma ticks_timer:
  "presetTimer ((tick ps ^^ k) s) = presetTimer s \<and> intervals ((tick ps ^^ k) s) = intervals s"
  by (induction k) (simp_all add: tick_timer)

lemma timer_inv_runPreset: "timer_inv s \<Longrightarrow> timer_inv (fst (runPreset ps i s))"
  by (simp add: timer_inv_def runPreset_timer split: option.splits)

lemma timer_inv_length: "timer_inv s \<Longrightarrow> length (intervals s) \<le> 1"
proof -
  assume a: "timer_inv s"
  have "length (map fst (intervals s)) \<le> 1"
    using a by (cases "presetTimer s") (simp_all add: timer_inv_def)
  then show ?thesis by simp
qed

lemma start_clear_empty:
  assumes "timer_inv s"
  shows "intervals (start_clear s) = []"
proof (cases "presetTimer s")
  case None
  with assms show ?thesis by (simp add: timer_inv_def start_clear_def truthy_handle_def)
next
  case (Some h)
  with assms have h: "0 < h" and m: "map fst (intervals s) = [h]"
    by (simp_all add: timer_inv_def)
  from m obtain e where e: "intervals s = [e]" and "fst e = h" by auto
  with Some h show ?thesis
    by (simp add: start_clear_def truthy_handle_def clearInterval_def)
qed

lemma start_clear_fields:
  "presetTimer (start_clear s) = presetTimer s \<and> nextHandle (start_clear s) = nextHandle s \<and>
   idx (start_clear s) = idx s"
  by (simp add: start_clear_def clearInterval_def)

lemma start_set_fields:
  "intervals (start_set ms s) = intervals s @ [(nextHandle s, ms)] \<and>
   presetTimer (start_set ms s) = Some (nextHandle s) \<and>
   nextHandle (start_set ms s) = Suc (nextHandle s) \<and> idx (start_set ms s) = idx s"
  by (simp add: start_set_def setInterval_def)

lemma startScheduler_returns:
  assumes "snd (runPreset ps 0 s) = Inr ()"
  shows "startScheduler ps ms s = (start_set ms (start_clear (fst (runPreset ps 0 s))), Inr ())"
  using assms by (cases "runPreset ps 0 s") (simp add: startScheduler_def)

lemma startScheduler_throws:
  assumes "snd (runPreset ps 0 s) = Inl e"
  shows "startScheduler ps ms s = (fst (runPreset ps 0 s), Inl e)"
  using assms by (cases "runPreset ps 0 s") (simp add: startScheduler_def)

lemma startScheduler_new_timer:
  assumes "timer_inv s" and "snd (runPreset ps 0 s) = Inr ()"
  shows "intervals (fst (startScheduler ps ms s)) = [(nextHandle s, ms)]"
    and "presetTimer (fst (startScheduler ps ms s)) = Some (nextHandle s)"
    and "nextHandle (fst (startScheduler ps ms s)) = Suc (nextHandle s)"
proof -
  let ?s1 = "fst (runPreset ps 0 s)"
  have c: "intervals (start_clear ?s1) = []"
    by (rule start_clear_empty) (rule timer_inv_runPreset [OF assms(1)])
  have n: "nextHandle (start_clear ?s1) = nextHandle s"
    by (simp add: start_clear_fields runPreset_timer)
  show "intervals (fst (startScheduler ps ms s)) = [(nextHandle s, ms)]"
    by (simp add: startScheduler_returns [OF assms(2)] start_set_fields c n)
  show "presetTimer (fst (startScheduler ps ms s)) = Some (nextHandle s)"
    by (simp add: startScheduler_returns [OF assms(2)] start_set_fields n)
  show "nextHandle (fst (startScheduler ps ms s)) = Suc (nextHandle s)"
    by (simp add: startScheduler_returns [OF assms(2)] start_set_fields n)
qed

lemma timer_inv_startScheduler:
  assumes "timer_inv s"
  shows "timer_inv (fst (startScheduler ps ms s))"
proof (cases "snd (runPreset ps 0 s)")
  case (Inl e)
  then show ?thesis
    by (simp add: startScheduler_throws timer_inv_runPreset [OF assms])
next
  case (Inr u)
  then have r: "snd (runPreset ps 0 s) = Inr ()" by simp
  from assms have "0 < nextHandle s" by (simp add: timer_inv_def)
  then show ?thesis
    by (simp add: timer_inv_def startScheduler_new_timer [OF assms r])
qed

lemma timer_inv_exec1: "timer_inv s \<Longrightarrow> timer_inv (exec1 ps c s)"
  by (cases c) (simp_all add: timer_inv_startScheduler timer_inv_runPreset tick_def timer_callback_def)

lemma timer_inv_exec: "timer_inv s \<Longrightarrow> timer_inv (exec ps cs s)"
  by (induction cs arbitrary: s) (simp_all add: timer_inv_exec1)

lemma timer_inv_init: "timer_inv scheduler_init"
  by (simp add: timer_inv_def scheduler_init_def)

lemmas scheduler_defs =
  startScheduler_def runPreset_def Let_def js_rem_def presets_length_def presets_at_def
  start_set_def start_clear_def setInterval_def clearInterval_def truthy_handle_def
  scheduler_init_def tick_def timer_callback_def timer_inv_def getPresetIndex_def
  always_returns_def always_throws_def throws_after_first_def

subsection \<open>Cyclic order of the scheduled advances\<close>

text \<open>
  Claim C1. After a call to \<open>startScheduler\<close>, whatever the index was before and whether
  or not preset invocations throw, the index read by \<open>getPresetIndex\<close> after \<open>k\<close>
  scheduled advances is \<open>k mod 8\<close>; each advance moves from an index to its cyclic
  successor, so no index is skipped and none is repeated.
\<close>

theorem scheduler_cycle:
  "getPresetIndex ((tick ps ^^ k) (fst (startScheduler ps ms s))) = int k mod presets_length \<and>
   getPresetIndex ((tick ps ^^ Suc k) (fst (startScheduler ps ms s))) =
     (getPresetIndex ((tick ps ^^ k) (fst (startScheduler ps ms s))) + 1) mod presets_length \<and>
   getPresetIndex ((tick ps ^^ Suc k) (fst (startScheduler ps ms s))) \<noteq>
     getPresetIndex ((tick ps ^^ k) (fst (startScheduler ps ms s)))"
proof -
  let ?s0 = "fst (startScheduler ps ms s)"
  have z: "idx ?s0 = 0" by (rule idx_startScheduler)
  have r: "0 \<le> idx ?s0" "idx ?s0 < presets_length"
    by (simp_all add: z presets_length_def)
  have a: "idx ((tick ps ^^ k) ?s0) = int k mod presets_length" for k
    using idx_ticks [OF r, where ps = ps and k = k] by (simp add: z)
  have b: "idx ((tick ps ^^ Suc k) ?s0) = (idx ((tick ps ^^ k) ?s0) + 1) mod presets_length"
    by (simp only: a) (simp add: mod_simps ac_simps)
  have lo: "0 \<le> idx ((tick ps ^^ k) ?s0)" and hi: "idx ((tick ps ^^ k) ?s0) < 8"
    by (simp_all add: a presets_length_def)
  have c: "idx ((tick ps ^^ Suc k) ?s0) \<noteq> idx ((tick ps ^^ k) ?s0)"
  proof
    assume "idx ((tick ps ^^ Suc k) ?s0) = idx ((tick ps ^^ k) ?s0)"
    with b have "(idx ((tick ps ^^ k) ?s0) + 1) mod 8 = idx ((tick ps ^^ k) ?s0)"
      by (simp add: presets_length_def)
    with lo hi show False by presburger
  qed
  from a [of k] b c show ?thesis by (simp only: getPresetIndex_def) simp
qed

theorem scheduler_cycle_witness:
  "getPresetIndex ((tick always_returns ^^ 10) (fst (startScheduler always_returns 22000
     (scheduler_init\<lparr>idx := 5\<rparr>)))) = 2"
  using scheduler_cycle [where ps = always_returns and k = 10 and ms = 22000
      and s = "scheduler_init\<lparr>idx := 5\<rparr>"]
  by (simp add: presets_length_def)

subsection \<open>Normalisation of the index by \<open>runPreset\<close>\<close>

text \<open>
  Claim C6. \<open>runPreset(i)\<close> is meant to store \<open>i\<close> floor-mod 8 for every integer \<open>i\<close>.
  The code adds the preset count once before taking the truncating remainder, which is
  the floor-mod only from \<open>-8\<close> upwards. At \<open>i = -9\<close> the stored index is \<open>-1\<close> where the
  floor-mod is \<open>7\<close>; the clear pass is made, no preset is invoked, and the call ends in a
  TypeError.
\<close>

theorem runPreset_minus_nine:
  "idx (fst (runPreset ps (- 9) s)) = - 1 \<and>
   (- 9) mod presets_length = 7 \<and>
   target (fst (runPreset ps (- 9) s)) = target s @ [Solid] \<and>
   snd (runPreset ps (- 9) s) = Inl TypeError"
  by (simp add: runPreset_def Let_def js_rem_def presets_length_def presets_at_def)

subsection \<open>A preset that throws during a scheduled advance\<close>

lemma timer_callback_throws:
  assumes "0 \<le> idx s" and "idx s < presets_length"
    and "ps (nat ((idx s + 1) mod presets_length)) (target s @ [Solid]) = Throws"
  shows "timer_callback ps s =
         (s\<lparr>idx := (idx s + 1) mod presets_length,
            target := target s @ [Solid, Invoke (nat ((idx s + 1) mod presets_length))]\<rparr>,
          Inl RenderPassFault)"
proof -
  have p: "0 < presets_length" by (simp add: presets_length_def)
  have "0 \<le> idx s + 1 + presets_length" using assms(1) p by simp
  then have "js_rem (idx s + 1 + presets_length) presets_length =
             (idx s + 1 + presets_length) mod presets_length"
    using p by (rule js_rem_nonneg)
  then have e: "js_rem (idx s + 1 + presets_length) presets_length = (idx s + 1) mod presets_length"
    by simp
  have r: "0 \<le> (idx s + 1) mod presets_length" "(idx s + 1) mod presets_length < presets_length"
    by (simp_all add: presets_length_def)
  show ?thesis
    using assms(3) r by (simp add: timer_callback_def runPreset_def Let_def presets_at_def e)
qed

text \<open>
  Claim C5, as stated, has the failure of a preset recovered and logged inside the tick.
  The rotation callback has no handler. Below, the first \<open>startScheduler\<close> returns and
  registers interval 1; when the host fires it, the preset throws, and the exception
  leaves \<open>runPreset\<close> and the callback; nothing has been written to the console.
\<close>

theorem rotate_fault_escapes:
  "snd (startScheduler throws_after_first 22000 scheduler_init) = Inr () \<and>
   intervals (fst (startScheduler throws_after_first 22000 scheduler_init)) = [(1, 22000)] \<and>
   exec1 throws_after_first Fire (fst (startScheduler throws_after_first 22000 scheduler_init)) =
     fst (timer_callback throws_after_first
       (fst (startScheduler throws_after_first 22000 scheduler_init))) \<and>
   snd (timer_callback throws_after_first
     (fst (startScheduler throws_after_first 22000 scheduler_init))) = Inl RenderPassFault \<and>
   console (fst (timer_callback throws_after_first
     (fst (startScheduler throws_after_first 22000 scheduler_init)))) = []"
  by (simp add: scheduler_defs)

text \<open>
  Claim C5, amended. When the preset invoked by a scheduled advance throws, the scheduler
  neither catches nor logs the failure: the exception leaves \<open>runPreset\<close> and the timer
  callback. By then the advance has stored the successor index and made the clear pass,
  and it changes nothing else: the timer variable and the host's interval are as they
  were, so the interval stays live, and the advances that follow continue the cyclic
  order from that index.
\<close>

theorem rotate_fault_keeps_rotation:
  assumes "0 \<le> idx s" and "idx s < presets_length"
    and "ps (nat ((idx s + 1) mod presets_length)) (target s @ [Solid]) = Throws"
  shows "timer_callback ps s =
           (s\<lparr>idx := (idx s + 1) mod presets_length,
              target := target s @ [Solid, Invoke (nat ((idx s + 1) mod presets_length))]\<rparr>,
            Inl RenderPassFault) \<and>
         snd (timer_callback ps s) = Inl RenderPassFault \<and>
         console (tick ps s) = console s \<and>
         (intervals s \<noteq> [] \<longrightarrow> exec1 ps Fire s = tick ps s) \<and>
         presetTimer (tick ps s) = presetTimer s \<and>
         intervals (tick ps s) = intervals s \<and>
         idx (tick ps s) = (idx s + 1) mod presets_length \<and>
         intervals ((tick ps ^^ k) (tick ps s)) = intervals s \<and>
         idx ((tick ps ^^ k) (tick ps s)) = (idx s + 1 + int k) mod presets_length"
proof -
  note c = timer_callback_throws [where ps = ps and s = s, OF assms]
  have c2: "snd (timer_callback ps s) = Inl RenderPassFault" by (simp add: c)
  have c3: "console (tick ps s) = console s" by (simp add: tick_def c)
  have c4: "intervals s \<noteq> [] \<longrightarrow> exec1 ps Fire s = tick ps s" by simp
  have t: "(tick ps ^^ k) (tick ps s) = (tick ps ^^ Suc k) s"
    by (simp add: funpow_swap1)
  have i: "idx ((tick ps ^^ Suc k) s) = (idx s + 1 + int k) mod presets_length"
    using idx_ticks [OF assms(1,2), where ps = ps and k = "Suc k"] by (simp add: ac_simps)
  have j: "intervals ((tick ps ^^ Suc k) s) = intervals s"
    using ticks_timer [where ps = ps and k = "Suc k" and s = s] by simp
  have r: "presetTimer (tick ps s) = presetTimer s \<and>
         intervals (tick ps s) = intervals s \<and>
         idx (tick ps s) = (idx s + 1) mod presets_length \<and>
         intervals ((tick ps ^^ k) (tick ps s)) = intervals s \<and>
         idx ((tick ps ^^ k) (tick ps s)) = (idx s + 1 + int k) mod presets_length"
    by (simp only: t i j tick_timer idx_tick [OF assms(1)])
  from c c2 c3 c4 r show ?thesis by blast
qed

theorem rotate_fault_keeps_rotation_witness:
  "0 \<le> idx (fst (startScheduler throws_after_first 22000 scheduler_init)) \<and>
   idx (fst (startScheduler throws_after_first 22000 scheduler_init)) < presets_length \<and>
   throws_after_first
     (nat ((idx (fst (startScheduler throws_after_first 22000 scheduler_init)) + 1)
        mod presets_length))
     (target (fst (startScheduler throws_after_first 22000 scheduler_init)) @ [Solid]) = Throws \<and>
   intervals (fst (startScheduler throws_after_first 22000 scheduler_init)) = [(1, 22000)] \<and>
   snd (timer_callback throws_after_first (fst (startScheduler throws_after_first 22000 scheduler_init)))
     = Inl RenderPassFault \<and>
   exec1 throws_after_first Fire (fst (startScheduler throws_after_first 22000 scheduler_init)) =
     tick throws_after_first (fst (startScheduler throws_after_first 22000 scheduler_init)) \<and>
   intervals ((tick throws_after_first ^^ 3)
     (tick throws_after_first (fst (startScheduler throws_after_first 22000 scheduler_init))))
     = [(1, 22000)] \<and>
   idx ((tick throws_after_first ^^ 3)
     (tick throws_after_first (fst (startScheduler throws_after_first 22000 scheduler_init))))
     = 4"
proof -
  let ?s = "fst (startScheduler throws_after_first 22000 scheduler_init)"
  have h1: "0 \<le> idx ?s" by (simp add: scheduler_defs)
  have h2: "idx ?s < presets_length" by (simp add: scheduler_defs)
  have h3: "throws_after_first (nat ((idx ?s + 1) mod presets_length)) (target ?s @ [Solid]) = Throws"
    by (simp add: scheduler_defs)
  have i: "intervals ?s = [(1, 22000)]" by (simp add: scheduler_defs)
  have z: "idx ?s = 0" by (simp add: scheduler_defs)
  note T = rotate_fault_keeps_rotation [where ps = throws_after_first and s = ?s and k = 3,
      OF h1 h2 h3]
  from T have a: "snd (timer_callback throws_after_first ?s) = Inl RenderPassFault" by blast
  from T i have b: "exec1 throws_after_first Fire ?s = tick throws_after_first ?s" by simp
  from T have "intervals ((tick throws_after_first ^^ 3) (tick throws_after_first ?s)) = intervals ?s"
    by blast
  then have c: "intervals ((tick throws_after_first ^^ 3) (tick throws_after_first ?s)) = [(1, 22000)]"
    by (simp only: i)
  from T have "idx ((tick throws_after_first ^^ 3) (tick throws_after_first ?s))
      = (idx ?s + 1 + int 3) mod presets_length"
    by blast
  then have d: "idx ((tick throws_after_first ^^ 3) (tick throws_after_first ?s)) = 4"
    by (simp add: z presets_length_def)
  from h1 h2 h3 i a b c d show ?thesis by blast
qed

subsection \<open>Restarting the scheduler\<close>

text \<open>
  Claim C7, as stated, has every call of \<open>startScheduler\<close> cancel the running timer and
  schedule a new one. The code runs preset 0 before it touches the timer: when that
  invocation throws, the call ends there. Below, the second call (period 5000) leaves
  the first call's interval (handle 1, period 22000) in place and schedules nothing.
\<close>

theorem startScheduler_throw_keeps_old_timer:
  "intervals (fst (startScheduler throws_after_first 5000
      (fst (startScheduler throws_after_first 22000 scheduler_init)))) = [(1, 22000)] \<and>
   snd (startScheduler throws_after_first 5000
      (fst (startScheduler throws_after_first 22000 scheduler_init))) = Inl RenderPassFault"
  by (simp add: scheduler_defs)

text \<open>
  Claim C7, amended. \<open>startScheduler(ms)\<close> first runs preset 0 (the index becomes 0 in
  every case). When that run returns, the call cancels the interval \<open>presetTimer\<close> names
  and schedules one new interval of period \<open>ms\<close>, which is then the only one; when it
  throws, timer variable and table are left as they were. At each point inside the call
  (after the run, after the cancellation, after the scheduling), and after any sequence
  of calls on the controller, at most one rotation interval is live.
\<close>

theorem startScheduler_single_timer:
  assumes "timer_inv s"
  shows "length (intervals (fst (runPreset ps 0 s))) \<le> 1 \<and>
         intervals (start_clear (fst (runPreset ps 0 s))) = [] \<and>
         length (intervals (fst (startScheduler ps ms s))) \<le> 1 \<and>
         timer_inv (fst (startScheduler ps ms s)) \<and>
         idx (fst (startScheduler ps ms s)) = 0 \<and>
         (snd (runPreset ps 0 s) = Inr () \<longrightarrow>
            startScheduler ps ms s = (start_set ms (start_clear (fst (runPreset ps 0 s))), Inr ()) \<and>
            intervals (fst (startScheduler ps ms s)) = [(nextHandle s, ms)] \<and>
            presetTimer (fst (startScheduler ps ms s)) = Some (nextHandle s) \<and>
            target (fst (startScheduler ps ms s)) = target s @ [Solid, Invoke 0]) \<and>
         (snd (runPreset ps 0 s) \<noteq> Inr () \<longrightarrow>
            snd (startScheduler ps ms s) = snd (runPreset ps 0 s) \<and>
            intervals (fst (startScheduler ps ms s)) = intervals s \<and>
            presetTimer (fst (startScheduler ps ms s)) = presetTimer s) \<and>
         timer_inv (exec ps cs scheduler_init) \<and>
         length (intervals (exec ps cs scheduler_init)) \<le> 1"
proof -
  let ?s1 = "fst (runPreset ps 0 s)"
  have i1: "timer_inv ?s1" by (rule timer_inv_runPreset [OF assms])
  have p1: "length (intervals ?s1) \<le> 1" by (rule timer_inv_length [OF i1])
  have p2: "intervals (start_clear ?s1) = []" by (rule start_clear_empty [OF i1])
  have i3: "timer_inv (fst (startScheduler ps ms s))" by (rule timer_inv_startScheduler [OF assms])
  have p3: "length (intervals (fst (startScheduler ps ms s))) \<le> 1" by (rule timer_inv_length [OF i3])
  have p4: "idx (fst (startScheduler ps ms s)) = 0" by (rule idx_startScheduler)
  have p5: "startScheduler ps ms s = (start_set ms (start_clear ?s1), Inr ()) \<and>
            intervals (fst (startScheduler ps ms s)) = [(nextHandle s, ms)] \<and>
            presetTimer (fst (startScheduler ps ms s)) = Some (nextHandle s) \<and>
            target (fst (startScheduler ps ms s)) = target s @ [Solid, Invoke 0]"
    if r: "snd (runPreset ps 0 s) = Inr ()"
  proof -
    have t1: "target ?s1 = target s @ [Solid, Invoke 0]"
      using runPreset_target [of 0 ps s] by (simp add: presets_length_def)
    have t: "target (start_set ms (start_clear ?s1)) = target ?s1"
      by (simp add: start_set_def setInterval_def start_clear_def clearInterval_def)
    show ?thesis
      using startScheduler_returns [OF r, of ms] startScheduler_new_timer(1,2) [OF assms r, of ms]
      by (simp add: t t1)
  qed
  have p6: "snd (startScheduler ps ms s) = snd (runPreset ps 0 s) \<and>
            intervals (fst (startScheduler ps ms s)) = intervals s \<and>
            presetTimer (fst (startScheduler ps ms s)) = presetTimer s"
    if r: "snd (runPreset ps 0 s) \<noteq> Inr ()"
  proof -
    from r obtain e where e: "snd (runPreset ps 0 s) = Inl e"
      by (cases "snd (runPreset ps 0 s)") simp_all
    show ?thesis
      by (simp add: startScheduler_throws [OF e] e runPreset_timer)
  qed
  have i7: "timer_inv (exec ps cs scheduler_init)"
    by (rule timer_inv_exec [OF timer_inv_init])
  have p7: "length (intervals (exec ps cs scheduler_init)) \<le> 1"
    by (rule timer_inv_length [OF i7])
  from p1 p2 p3 i3 p4 p5 p6 i7 p7 show ?thesis by blast
qed

theorem startScheduler_single_timer_witness:
  "timer_inv (fst (startScheduler always_returns 22000 scheduler_init)) \<and>
   snd (runPreset always_returns 0 (fst (startScheduler always_returns 22000 scheduler_init)))
     = Inr () \<and>
   intervals (fst (startScheduler always_returns 22000 scheduler_init)) = [(1, 22000)] \<and>
   intervals (fst (startScheduler always_returns 5000
     (fst (startScheduler always_returns 22000 scheduler_init)))) = [(2, 5000)] \<and>
   length (intervals (exec always_returns [Start 22000, Fire, Run 3, Start 5000, Fire]
     scheduler_init)) \<le> 1"
proof -
  let ?s = "fst (startScheduler always_returns 22000 scheduler_init)"
  have h: "timer_inv ?s" by (simp add: scheduler_defs)
  have r: "snd (runPreset always_returns 0 ?s) = Inr ()" by (simp add: scheduler_defs)
  have i: "intervals ?s = [(1, 22000)]" by (simp add: scheduler_defs)
  have n: "nextHandle ?s = 2" by (simp add: scheduler_defs)
  note T = startScheduler_single_timer [OF h, where ps = always_returns and ms = 5000
      and cs = "[Start 22000, Fire, Run 3, Start 5000, Fire]"]
  from T r have "intervals (fst (startScheduler always_returns 5000 ?s)) = [(nextHandle ?s, 5000)]"
    by blast
  then have a: "intervals (fst (startScheduler always_returns 5000 ?s)) = [(2, 5000)]"
    by (simp only: n)
  from T have e: "length (intervals (exec always_returns
      [Start 22000, Fire, Run 3, Start 5000, Fire] scheduler_init)) \<le> 1"
    by blast
  from h r i a e show ?thesis by blast
qed

section \<open>Properties of the audio features\<close>











lemma ema_closed_form:
  "((\<lambda>x. x * k + c * (1 - k)) ^^ n) x = c + k ^ n * (x - c)" for k c x :: real
proof (induction n)
  case 0
  show ?case by simp
next
  case (Suc n)
  have "((\<lambda>x. x * k + c * (1 - k)) ^^ Suc n) x = (c + k ^ n * (x - c)) * k + c * (1 - k)"
    by (simp add: Suc.IH)
  also have "\<dots> = c + k ^ Suc n * (x - c)" by (simp add: algebra_simps)
  finally show ?case .
qed

lemma smoothing_smooth: "smooth ((smoothing r ^^ n) a) = smooth a"
  by (induction n) (simp_all add: smoothing_def Let_def)

lemma smoothing_step:
  "level (smoothing r b) = level b * smooth b + nextLevelV r * (1 - smooth b) \<and>
   bass (smoothing r b) = bass b * smooth b + nextBass r * (1 - smooth b) \<and>
   mid (smoothing r b) = mid b * smooth b + nextMid r * (1 - smooth b) \<and>
   treble (smoothing r b) = treble b * smooth b + nextTreble r * (1 - smooth b)"
  by (simp add: smoothing_def Let_def)

lemma smoothing_iter:
  "level ((smoothing r ^^ n) a) = ((\<lambda>x. x * smooth a + nextLevelV r * (1 - smooth a)) ^^ n) (level a) \<and>
   bass ((smoothing r ^^ n) a) = ((\<lambda>x. x * smooth a + nextBass r * (1 - smooth a)) ^^ n) (bass a) \<and>
   mid ((smoothing r ^^ n) a) = ((\<lambda>x. x * smooth a + nextMid r * (1 - smooth a)) ^^ n) (mid a) \<and>
   treble ((smoothing r ^^ n) a) = ((\<lambda>x. x * smooth a + nextTreble r * (1 - smooth a)) ^^ n) (treble a)"
proof (induction n)
  case 0
  show ?case by simp
next
  case (Suc n)
  have k: "smooth ((smoothing r ^^ n) a) = smooth a" by (rule smoothing_smooth)
  have u: "(smoothing r ^^ Suc n) a = smoothing r ((smoothing r ^^ n) a)" by simp
  have v: "(f ^^ Suc n) x = f ((f ^^ n) x)" for f :: "real \<Rightarrow> real" and x by simp
  show ?case
    by (simp only: u v smoothing_step k Suc.IH)
qed

lemma smoothing_closed_form:
  "level ((smoothing r ^^ n) a) = nextLevelV r + smooth a ^ n * (level a - nextLevelV r) \<and>
   bass ((smoothing r ^^ n) a) = nextBass r + smooth a ^ n * (bass a - nextBass r) \<and>
   mid ((smoothing r ^^ n) a) = nextMid r + smooth a ^ n * (mid a - nextMid r) \<and>
   treble ((smoothing r ^^ n) a) = nextTreble r + smooth a ^ n * (treble a - nextTreble r)"
  by (simp only: smoothing_iter ema_closed_form)

lemma geometric_approaches:
  fixes c x0 :: real
  shows "approaches (\<lambda>n. c + (85 / 100) ^ n * (x0 - c)) c"
proof -
  let ?k = "85 / 100 :: real"
  have p: "0 \<le> ?k ^ n" for n by simp
  have d: "?k ^ Suc n \<le> ?k ^ n" for n by simp
  have up: "c + ?k ^ n * (x0 - c) \<le> c + ?k ^ Suc n * (x0 - c) \<and> c + ?k ^ n * (x0 - c) \<le> c"
    if "x0 \<le> c" for n
  proof -
    from that have m: "x0 - c \<le> 0" by simp
    have "?k ^ n * (x0 - c) \<le> ?k ^ Suc n * (x0 - c)"
      by (rule mult_right_mono_neg [OF d m])
    moreover have "?k ^ n * (x0 - c) \<le> 0"
      by (rule mult_nonneg_nonpos [OF p m])
    ultimately show ?thesis by simp
  qed
  have down: "c + ?k ^ Suc n * (x0 - c) \<le> c + ?k ^ n * (x0 - c) \<and> c \<le> c + ?k ^ n * (x0 - c)"
    if "c \<le> x0" for n
  proof -
    from that have m: "0 \<le> x0 - c" by simp
    have "?k ^ Suc n * (x0 - c) \<le> ?k ^ n * (x0 - c)"
      by (rule mult_right_mono [OF d m])
    moreover have "0 \<le> ?k ^ n * (x0 - c)"
      by (rule mult_nonneg_nonneg [OF p m])
    ultimately show ?thesis by simp
  qed
  have "(\<lambda>n. ?k ^ n) \<longlonglongrightarrow> 0"
    by (rule LIMSEQ_realpow_zero) simp_all
  then have "(\<lambda>n. ?k ^ n * (x0 - c)) \<longlonglongrightarrow> 0 * (x0 - c)"
    by (rule tendsto_mult_right)
  then have "(\<lambda>n. c + ?k ^ n * (x0 - c)) \<longlonglongrightarrow> c + 0 * (x0 - c)"
    by (intro tendsto_add tendsto_const)
  then have lim: "(\<lambda>n. c + ?k ^ n * (x0 - c)) \<longlonglongrightarrow> c" by simp
  from up down lim show ?thesis by simp
qed



lemma update_is_smoothing:
  assumes "analyser a" and "extract_features dataTime dataFreq = Some r"
  shows "AudioInput_update dataTime dataFreq a = Some (smoothing r a)"
  using assms by (simp add: AudioInput_update_def)

subsection \<open>Band averages\<close>



subsection \<open>Smoothing\<close>

text \<open>
  Claim C9. With the coefficient 0.85 of the constructor, one update replaces each of the
  four features by \<open>feature * 0.85 + raw * (1 - 0.85)\<close>. Under a constant raw input, the
  feature after \<open>n\<close> updates is \<open>raw + 0.85 ^ n * (feature - raw)\<close>: the sequence never
  decreases when it starts below the raw value, never increases when it starts above,
  stays on its side of the raw value and converges to it.
\<close>

theorem ema_converges_monotonically:
  assumes "smooth a = 85 / 100"
  shows "(analyser a \<and> extract_features dataTime dataFreq = Some r \<longrightarrow>
            AudioInput_update dataTime dataFreq a = Some (smoothing r a)) \<and>
         level (smoothing r a) = level a * (85 / 100) + nextLevelV r * (1 - 85 / 100) \<and>
         bass (smoothing r a) = bass a * (85 / 100) + nextBass r * (1 - 85 / 100) \<and>
         mid (smoothing r a) = mid a * (85 / 100) + nextMid r * (1 - 85 / 100) \<and>
         treble (smoothing r a) = treble a * (85 / 100) + nextTreble r * (1 - 85 / 100) \<and>
         level ((smoothing r ^^ n) a) = nextLevelV r + (85 / 100) ^ n * (level a - nextLevelV r) \<and>
         bass ((smoothing r ^^ n) a) = nextBass r + (85 / 100) ^ n * (bass a - nextBass r) \<and>
         mid ((smoothing r ^^ n) a) = nextMid r + (85 / 100) ^ n * (mid a - nextMid r) \<and>
         treble ((smoothing r ^^ n) a) = nextTreble r + (85 / 100) ^ n * (treble a - nextTreble r) \<and>
         approaches (\<lambda>n. level ((smoothing r ^^ n) a)) (nextLevelV r) \<and>
         approaches (\<lambda>n. bass ((smoothing r ^^ n) a)) (nextBass r) \<and>
         approaches (\<lambda>n. mid ((smoothing r ^^ n) a)) (nextMid r) \<and>
         approaches (\<lambda>n. treble ((smoothing r ^^ n) a)) (nextTreble r)"
proof -
  have u: "analyser a \<and> extract_features dataTime dataFreq = Some r \<longrightarrow>
            AudioInput_update dataTime dataFreq a = Some (smoothing r a)"
    using update_is_smoothing by blast
  have s: "level (smoothing r a) = level a * (85 / 100) + nextLevelV r * (1 - 85 / 100) \<and>
         bass (smoothing r a) = bass a * (85 / 100) + nextBass r * (1 - 85 / 100) \<and>
         mid (smoothing r a) = mid a * (85 / 100) + nextMid r * (1 - 85 / 100) \<and>
         treble (smoothing r a) = treble a * (85 / 100) + nextTreble r * (1 - 85 / 100)"
    by (simp add: smoothing_def Let_def assms)
  note c = smoothing_closed_form [where r = r and a = a, unfolded assms]
  have c1: "level ((smoothing r ^^ n) a) = nextLevelV r + (85 / 100) ^ n * (level a - nextLevelV r)"
    and c2: "bass ((smoothing r ^^ n) a) = nextBass r + (85 / 100) ^ n * (bass a - nextBass r)"
    and c3: "mid ((smoothing r ^^ n) a) = nextMid r + (85 / 100) ^ n * (mid a - nextMid r)"
    and c4: "treble ((smoothing r ^^ n) a) = nextTreble r + (85 / 100) ^ n * (treble a - nextTreble r)"
    for n using c [where n = n] by blast+
  have l: "approaches (\<lambda>n. level ((smoothing r ^^ n) a)) (nextLevelV r)"
    unfolding c1 by (rule geometric_approaches)
  have b: "approaches (\<lambda>n. bass ((smoothing r ^^ n) a)) (nextBass r)"
    unfolding c2 by (rule geometric_approaches)
  have m: "approaches (\<lambda>n. mid ((smoothing r ^^ n) a)) (nextMid r)"
    unfolding c3 by (rule geometric_approaches)
  have t: "approaches (\<lambda>n. treble ((smoothing r ^^ n) a)) (nextTreble r)"
    unfolding c4 by (rule geometric_approaches)
  from u s c1 [of n] c2 [of n] c3 [of n] c4 [of n] l b m t show ?thesis by blast
qed

theorem ema_converges_monotonically_witness:
  "smooth (AudioInput_new\<lparr>analyser := True\<rparr>) = 85 / 100 \<and>
   level ((smoothing \<lparr>nextLevelV = 1, nextBass = 1, nextMid = 0, nextTreble = 0\<rparr> ^^ 2)
     (AudioInput_new\<lparr>analyser := True\<rparr>)) = 111 / 400"
proof -
  let ?a = "AudioInput_new\<lparr>analyser := True\<rparr>"
  let ?r = "\<lparr>nextLevelV = 1, nextBass = 1, nextMid = 0, nextTreble = 0\<rparr>"
  have h: "smooth ?a = 85 / 100"
    by (simp add: AudioInput_new_def)
  from ema_converges_monotonically [OF h, where r = ?r and n = 2]
  have "level ((smoothing ?r ^^ 2) ?a) = nextLevelV ?r + (85 / 100) ^ 2 * (level ?a - nextLevelV ?r)"
    by blast
  then have "level ((smoothing ?r ^^ 2) ?a) = 111 / 400"
    by (simp add: AudioInput_new_def power2_eq_square)
  with h show ?thesis by blast
qed

section \<open>Properties of the verse overlay\<close>

lemma verses_length: "length verses = 8"
  by (simp add: verses_def)

lemma alpha_closed:
  assumes "0 < fadeMs cfg"
  shows "alpha_envelope cfg now s =
         (if fadeStartMs s = 0 then 1 else 1 - clamp01 ((now - fadeStartMs s) / fadeMs cfg))"
proof (cases "fadeStartMs s \<noteq> 0 \<and> fadeStartMs s \<le> now")
  case True
  then show ?thesis by (simp add: alpha_envelope_def)
next
  case False
  show ?thesis
  proof (cases "fadeStartMs s = 0")
    case True
    then show ?thesis by (simp add: alpha_envelope_def)
  next
    case nz: False
    with False have "now < fadeStartMs s" by simp
    then have "(now - fadeStartMs s) / fadeMs cfg < 0"
      using assms by (simp add: divide_neg_pos)
    then have "clamp01 ((now - fadeStartMs s) / fadeMs cfg) = 0"
      by (simp add: clamp01_def)
    with False nz show ?thesis by (simp add: alpha_envelope_def)
  qed
qed

lemma clamp01_continuous:
  assumes "b \<noteq> 0"
  shows "continuous_on UNIV (\<lambda>t. clamp01 ((t - a) / b))"
  unfolding clamp01_def using assms by (intro continuous_intros) simp

lemma alpha_continuous:
  assumes "0 < fadeMs cfg"
  shows "continuous_on UNIV (\<lambda>t. alpha_envelope cfg t s)"
proof (cases "fadeStartMs s = 0")
  case True
  then show ?thesis by (simp add: alpha_envelope_def)
next
  case False
  have nz: "fadeMs cfg \<noteq> 0" using assms by simp
  have "continuous_on UNIV (\<lambda>t. alpha_envelope cfg t s) \<longleftrightarrow>
        continuous_on UNIV (\<lambda>t. 1 - clamp01 ((t - fadeStartMs s) / fadeMs cfg))"
    by (rule continuous_on_cong) (simp_all add: alpha_closed [OF assms] False)
  moreover have "continuous_on UNIV (\<lambda>t. 1 - clamp01 ((t - fadeStartMs s) / fadeMs cfg))"
    by (intro continuous_intros clamp01_continuous [OF nz])
  ultimately show ?thesis by simp
qed

lemma draw_alpha:
  "alpha (snd (draw textWidth maxW cfg palette rnd now s)) = alpha_envelope cfg now (reveal_latch cfg now s)"
  by (simp add: draw_def Let_def)

lemma draw_state:
  "fst (draw textWidth maxW cfg palette rnd now s) = cycle_advance palette rnd now (reveal_latch cfg now s)"
  by (simp add: draw_def Let_def)

subsection \<open>The opacity\<close>

text \<open>
  Claim C2. With a positive fade duration, the opacity of a frame at time \<open>now\<close> is 1
  while the fade start is not set (the reveal) and while \<open>now\<close> is before the fade start
  (the hold); from the fade start on it is \<open>1 - clamp01 ((now - fadeStartMs) / fadeMs)\<close>,
  which is the line \<open>1 - (now - fadeStartMs) / fadeMs\<close> up to \<open>fadeStartMs + fadeMs\<close> and 0
  from there on, through the gap; as a function of \<open>now\<close> it is continuous.
\<close>

theorem alpha_envelope_shape:
  assumes "0 < fadeMs cfg"
  shows "alpha (snd (draw textWidth maxW cfg palette rnd now s)) =
           alpha_envelope cfg now (reveal_latch cfg now s) \<and>
         (fadeStartMs s = 0 \<longrightarrow> alpha_envelope cfg now s = 1) \<and>
         (now < fadeStartMs s \<longrightarrow> alpha_envelope cfg now s = 1) \<and>
         (fadeStartMs s \<noteq> 0 \<and> fadeStartMs s \<le> now \<longrightarrow>
            alpha_envelope cfg now s = 1 - clamp01 ((now - fadeStartMs s) / fadeMs cfg)) \<and>
         (fadeStartMs s \<noteq> 0 \<and> fadeStartMs s \<le> now \<and> now \<le> fadeStartMs s + fadeMs cfg \<longrightarrow>
            alpha_envelope cfg now s = 1 - (now - fadeStartMs s) / fadeMs cfg) \<and>
         (fadeStartMs s \<noteq> 0 \<and> fadeStartMs s + fadeMs cfg \<le> now \<longrightarrow>
            alpha_envelope cfg now s = 0) \<and>
         continuous_on UNIV (\<lambda>t. alpha_envelope cfg t s)"
proof -
  have a: "fadeStartMs s = 0 \<longrightarrow> alpha_envelope cfg now s = 1"
    by (simp add: alpha_envelope_def)
  have b: "now < fadeStartMs s \<longrightarrow> alpha_envelope cfg now s = 1"
    by (simp add: alpha_envelope_def)
  have c: "fadeStartMs s \<noteq> 0 \<and> fadeStartMs s \<le> now \<longrightarrow>
      alpha_envelope cfg now s = 1 - clamp01 ((now - fadeStartMs s) / fadeMs cfg)"
    by (simp add: alpha_envelope_def)
  have d: "fadeStartMs s \<noteq> 0 \<and> fadeStartMs s \<le> now \<and> now \<le> fadeStartMs s + fadeMs cfg \<longrightarrow>
      alpha_envelope cfg now s = 1 - (now - fadeStartMs s) / fadeMs cfg"
  proof
    assume h: "fadeStartMs s \<noteq> 0 \<and> fadeStartMs s \<le> now \<and> now \<le> fadeStartMs s + fadeMs cfg"
    then have "0 \<le> (now - fadeStartMs s) / fadeMs cfg" using assms by simp
    moreover from h have "(now - fadeStartMs s) / fadeMs cfg \<le> 1"
      using assms by (simp add: pos_divide_le_eq)
    ultimately have "clamp01 ((now - fadeStartMs s) / fadeMs cfg) = (now - fadeStartMs s) / fadeMs cfg"
      by (simp add: clamp01_def)
    with h show "alpha_envelope cfg now s = 1 - (now - fadeStartMs s) / fadeMs cfg"
      by (simp add: alpha_envelope_def)
  qed
  have e: "fadeStartMs s \<noteq> 0 \<and> fadeStartMs s + fadeMs cfg \<le> now \<longrightarrow> alpha_envelope cfg now s = 0"
  proof
    assume h: "fadeStartMs s \<noteq> 0 \<and> fadeStartMs s + fadeMs cfg \<le> now"
    then have "1 \<le> (now - fadeStartMs s) / fadeMs cfg"
      using assms by (simp add: pos_le_divide_eq)
    then have "clamp01 ((now - fadeStartMs s) / fadeMs cfg) = 1"
      by (simp add: clamp01_def)
    moreover from h assms have "fadeStartMs s \<le> now" by linarith
    ultimately show "alpha_envelope cfg now s = 0"
      using h by (simp add: alpha_envelope_def)
  qed
  from draw_alpha a b c d e alpha_continuous [OF assms] show ?thesis by blast
qed


lemma totalChars_pos: "6 \<le> totalChars s"
  by (simp add: totalChars_def buildFullText_def)

lemma latch_time_pos:
  assumes "0 < msPerChar cfg" and "0 \<le> startMs s" and "totalChars s \<le> charsVisible cfg now s"
  shows "0 < now"
proof -
  have "1 \<le> charsVisible cfg now s" using totalChars_pos [of s] assms(3) by linarith
  then have "1 \<le> (now - startMs s) / msPerChar cfg"
    by (simp add: charsVisible_def le_floor_iff)
  then have "msPerChar cfg \<le> now - startMs s"
    using assms(1) by (simp add: pos_le_divide_eq)
  with assms(1,2) show ?thesis by linarith
qed

lemma reveal_latch_fires:
  assumes "revealDoneMs s = 0" and "totalChars s \<le> charsVisible cfg now s"
  shows "reveal_latch cfg now s =
         s\<lparr>revealDoneMs := now, fadeStartMs := now + holdMs cfg,
           cycleDoneMs := now + holdMs cfg + fadeMs cfg + gapMs cfg\<rparr>"
  using assms by (simp add: reveal_latch_def Let_def)

lemma reveal_latch_idle:
  assumes "revealDoneMs s \<noteq> 0 \<or> charsVisible cfg now s < totalChars s"
  shows "reveal_latch cfg now s = s"
  using assms by (auto simp add: reveal_latch_def)

lemma draw_latched:
  assumes "revealDoneMs s \<noteq> 0"
  shows "fst (draw textWidth maxW cfg palette rnd now s) =
         (if cycleDoneMs s \<noteq> 0 \<and> cycleDoneMs s \<le> now then nextVerse palette rnd now s else s)"
  using assms by (simp add: draw_state reveal_latch_idle cycle_advance_def)

lemma draws_latched:
  assumes "revealDoneMs s \<noteq> 0"
    and "\<forall>t \<in> set (map snd ticks). cycleDoneMs s = 0 \<or> t < cycleDoneMs s"
  shows "draws textWidth maxW cfg palette ticks s = s"
  using assms(2)
proof (induction ticks)
  case Nil
  show ?case by simp
next
  case (Cons p ticks)
  obtain rnd now where p: "p = (rnd, now)" by (cases p)
  from Cons.prems p have "cycleDoneMs s = 0 \<or> now < cycleDoneMs s" by auto
  then have "fst (draw textWidth maxW cfg palette rnd now s) = s"
    using draw_latched [OF assms(1)] by auto
  moreover from Cons.prems have "\<forall>t \<in> set (map snd ticks). cycleDoneMs s = 0 \<or> t < cycleDoneMs s"
    by auto
  ultimately show ?case using Cons.IH p by simp
qed

lemma draw_unlatched:
  assumes "revealDoneMs s = 0" and "cycleDoneMs s = 0" and "charsVisible cfg now s < totalChars s"
  shows "fst (draw textWidth maxW cfg palette rnd now s) = s"
  using assms by (simp add: draw_state reveal_latch_idle cycle_advance_def)

lemma draw_latches:
  assumes "revealDoneMs s = 0" and "totalChars s \<le> charsVisible cfg now s"
    and "0 < holdMs cfg + fadeMs cfg + gapMs cfg"
  shows "fst (draw textWidth maxW cfg palette rnd now s) =
         s\<lparr>revealDoneMs := now, fadeStartMs := now + holdMs cfg,
           cycleDoneMs := now + holdMs cfg + fadeMs cfg + gapMs cfg\<rparr>"
proof -
  have "\<not> now + holdMs cfg + fadeMs cfg + gapMs cfg \<le> now" using assms(3) by simp
  then show ?thesis
    by (simp add: draw_state reveal_latch_fires [OF assms(1,2)] cycle_advance_def)
qed

lemma draws_append:
  "draws textWidth maxW cfg palette (xs @ ys) s =
   draws textWidth maxW cfg palette ys (draws textWidth maxW cfg palette xs s)"
  by (induction xs arbitrary: s) auto

lemma draws_unlatched:
  assumes "revealDoneMs s = 0" and "cycleDoneMs s = 0"
    and "\<forall>t \<in> set (map snd ticks). charsVisible cfg t s < totalChars s"
  shows "draws textWidth maxW cfg palette ticks s = s"
  using assms(3)
proof (induction ticks)
  case Nil
  show ?case by simp
next
  case (Cons p ticks)
  obtain rnd now where p: "p = (rnd, now)" by (cases p)
  from Cons.prems p have "charsVisible cfg now s < totalChars s" by auto
  then have "fst (draw textWidth maxW cfg palette rnd now s) = s"
    by (rule draw_unlatched [OF assms(1,2)])
  moreover from Cons.prems have "\<forall>t \<in> set (map snd ticks). charsVisible cfg t s < totalChars s"
    by auto
  ultimately show ?case using Cons.IH p by simp
qed

lemma draws_through_latch:
  assumes "0 < msPerChar cfg" and "0 \<le> startMs s"
    and "revealDoneMs s = 0" and "cycleDoneMs s = 0"
    and "0 < holdMs cfg + fadeMs cfg + gapMs cfg"
    and "\<forall>t \<in> set (map snd before). charsVisible cfg t s < totalChars s"
    and "totalChars s \<le> charsVisible cfg now s"
    and "\<forall>t \<in> set (map snd after). t < now + holdMs cfg + fadeMs cfg + gapMs cfg"
  shows "draws textWidth maxW cfg palette (before @ [(rnd, now)] @ after) s =
         s\<lparr>revealDoneMs := now, fadeStartMs := now + holdMs cfg,
           cycleDoneMs := now + holdMs cfg + fadeMs cfg + gapMs cfg\<rparr>"
proof -
  let ?l = "s\<lparr>revealDoneMs := now, fadeStartMs := now + holdMs cfg,
               cycleDoneMs := now + holdMs cfg + fadeMs cfg + gapMs cfg\<rparr>"
  have b: "draws textWidth maxW cfg palette before s = s"
    by (rule draws_unlatched [OF assms(3,4,6)])
  have l: "fst (draw textWidth maxW cfg palette rnd now s) = ?l"
    by (rule draw_latches [OF assms(3,7,5)])
  have "0 < now" by (rule latch_time_pos [OF assms(1,2,7)])
  then have r: "revealDoneMs ?l \<noteq> 0" by simp
  have q: "\<forall>t \<in> set (map snd after). cycleDoneMs ?l = 0 \<or> t < cycleDoneMs ?l"
    using assms(8) by simp
  have a: "draws textWidth maxW cfg palette after ?l = ?l"
    by (rule draws_latched [OF r q])
  show ?thesis by (simp add: draws_append b l a)
qed

subsection \<open>The latch of the derived timestamps\<close>

text \<open>
  Claim C4. With a positive reveal speed and a start time that is not negative: a frame
  on which the timestamps are not yet set and \<open>charsVisible\<close> has reached \<open>totalChars\<close>
  sets \<open>revealDoneMs\<close> to \<open>now\<close>, \<open>fadeStartMs\<close> to \<open>revealDoneMs + holdMs\<close> and
  \<open>cycleDoneMs\<close> to \<open>fadeStartMs + fadeMs + gapMs\<close>, and changes nothing else; a frame
  before that changes nothing; once set, no later frame of the cycle computes them
  again: a frame either leaves the whole state as it is or moves on to the next verse,
  and every run of frames before \<open>cycleDoneMs\<close> leaves the state as it is. Over a whole
  run of frames of one cycle, the state at the end holds the timestamps of the first
  frame that reached \<open>totalChars\<close>, whatever frames came before and after it.
\<close>

theorem reveal_latch_once:
  assumes "0 < msPerChar cfg" and "0 \<le> startMs s"
  shows "(revealDoneMs s = 0 \<and> totalChars s \<le> charsVisible cfg now s \<longrightarrow>
            revealDoneMs (reveal_latch cfg now s) = now \<and>
            fadeStartMs (reveal_latch cfg now s) = revealDoneMs (reveal_latch cfg now s) + holdMs cfg \<and>
            cycleDoneMs (reveal_latch cfg now s) =
              fadeStartMs (reveal_latch cfg now s) + fadeMs cfg + gapMs cfg \<and>
            revealDoneMs (reveal_latch cfg now s) \<noteq> 0) \<and>
         (charsVisible cfg now s < totalChars s \<longrightarrow> reveal_latch cfg now s = s) \<and>
         (revealDoneMs s \<noteq> 0 \<longrightarrow> reveal_latch cfg now s = s) \<and>
         (revealDoneMs s \<noteq> 0 \<longrightarrow>
            fst (draw textWidth maxW cfg palette rnd now s) = s \<or>
            fst (draw textWidth maxW cfg palette rnd now s) = nextVerse palette rnd now s) \<and>
         (revealDoneMs s \<noteq> 0 \<and> (\<forall>t \<in> set (map snd ticks). cycleDoneMs s = 0 \<or> t < cycleDoneMs s) \<longrightarrow>
            draws textWidth maxW cfg palette ticks s = s) \<and>
         (revealDoneMs s = 0 \<and> totalChars s \<le> charsVisible cfg now s \<and>
          0 < holdMs cfg + fadeMs cfg + gapMs cfg \<longrightarrow>
            fst (draw textWidth maxW cfg palette rnd now s) =
              s\<lparr>revealDoneMs := now, fadeStartMs := now + holdMs cfg,
                cycleDoneMs := now + holdMs cfg + fadeMs cfg + gapMs cfg\<rparr>) \<and>
         (revealDoneMs s = 0 \<and> cycleDoneMs s = 0 \<and> charsVisible cfg now s < totalChars s \<longrightarrow>
            fst (draw textWidth maxW cfg palette rnd now s) = s) \<and>
         (revealDoneMs s = 0 \<and> cycleDoneMs s = 0 \<and> 0 < holdMs cfg + fadeMs cfg + gapMs cfg \<and>
          (\<forall>t \<in> set (map snd before). charsVisible cfg t s < totalChars s) \<and>
          totalChars s \<le> charsVisible cfg now s \<and>
          (\<forall>t \<in> set (map snd after). t < now + holdMs cfg + fadeMs cfg + gapMs cfg) \<longrightarrow>
            draws textWidth maxW cfg palette (before @ [(rnd, now)] @ after) s =
              s\<lparr>revealDoneMs := now, fadeStartMs := now + holdMs cfg,
                cycleDoneMs := now + holdMs cfg + fadeMs cfg + gapMs cfg\<rparr>)"
proof -
  have a: "revealDoneMs (reveal_latch cfg now s) = now \<and>
           fadeStartMs (reveal_latch cfg now s) = revealDoneMs (reveal_latch cfg now s) + holdMs cfg \<and>
           cycleDoneMs (reveal_latch cfg now s) =
             fadeStartMs (reveal_latch cfg now s) + fadeMs cfg + gapMs cfg \<and>
           revealDoneMs (reveal_latch cfg now s) \<noteq> 0"
    if h: "revealDoneMs s = 0 \<and> totalChars s \<le> charsVisible cfg now s"
  proof -
    from h have p: "0 < now" using latch_time_pos [OF assms] by blast
    from h have "reveal_latch cfg now s =
        s\<lparr>revealDoneMs := now, fadeStartMs := now + holdMs cfg,
          cycleDoneMs := now + holdMs cfg + fadeMs cfg + gapMs cfg\<rparr>"
      using reveal_latch_fires by blast
    with p show ?thesis by simp
  qed
  have b: "charsVisible cfg now s < totalChars s \<longrightarrow> reveal_latch cfg now s = s"
    by (simp add: reveal_latch_idle)
  have c: "revealDoneMs s \<noteq> 0 \<longrightarrow> reveal_latch cfg now s = s"
    by (simp add: reveal_latch_idle)
  have d: "revealDoneMs s \<noteq> 0 \<longrightarrow>
            fst (draw textWidth maxW cfg palette rnd now s) = s \<or>
            fst (draw textWidth maxW cfg palette rnd now s) = nextVerse palette rnd now s"
    by (simp add: draw_latched)
  have e: "revealDoneMs s \<noteq> 0 \<and> (\<forall>t \<in> set (map snd ticks). cycleDoneMs s = 0 \<or> t < cycleDoneMs s) \<longrightarrow>
            draws textWidth maxW cfg palette ticks s = s"
    using draws_latched by blast
  have f: "revealDoneMs s = 0 \<and> totalChars s \<le> charsVisible cfg now s \<and>
          0 < holdMs cfg + fadeMs cfg + gapMs cfg \<longrightarrow>
            fst (draw textWidth maxW cfg palette rnd now s) =
              s\<lparr>revealDoneMs := now, fadeStartMs := now + holdMs cfg,
                cycleDoneMs := now + holdMs cfg + fadeMs cfg + gapMs cfg\<rparr>"
    using draw_latches by blast
  have g: "revealDoneMs s = 0 \<and> cycleDoneMs s = 0 \<and> charsVisible cfg now s < totalChars s \<longrightarrow>
            fst (draw textWidth maxW cfg palette rnd now s) = s"
    using draw_unlatched by blast
  have i: "revealDoneMs s = 0 \<and> cycleDoneMs s = 0 \<and> 0 < holdMs cfg + fadeMs cfg + gapMs cfg \<and>
          (\<forall>t \<in> set (map snd before). charsVisible cfg t s < totalChars s) \<and>
          totalChars s \<le> charsVisible cfg now s \<and>
          (\<forall>t \<in> set (map snd after). t < now + holdMs cfg + fadeMs cfg + gapMs cfg) \<longrightarrow>
            draws textWidth maxW cfg palette (before @ [(rnd, now)] @ after) s =
              s\<lparr>revealDoneMs := now, fadeStartMs := now + holdMs cfg,
                cycleDoneMs := now + holdMs cfg + fadeMs cfg + gapMs cfg\<rparr>"
    using draws_through_latch [OF assms] by blast
  from a b c d e f g i show ?thesis by blast
qed

lemma pickPalette_member:
  assumes "palette \<noteq> []" and "0 \<le> rnd" and "rnd < 1"
  shows "\<exists>c \<in> set palette. pickPalette palette rnd = Some c"
proof -
  let ?n = "real (length palette)"
  have n: "0 < ?n" using assms(1) by simp
  have lo: "0 \<le> rnd * ?n" using assms(2) by simp
  have hi: "rnd * ?n < ?n" using assms(3) n by simp
  have i0: "0 \<le> \<lfloor>rnd * ?n\<rfloor>" using lo by simp
  have i1: "\<lfloor>rnd * ?n\<rfloor> < int (length palette)"
    using hi by (simp add: floor_less_iff)
  from i0 i1 have "nat \<lfloor>rnd * ?n\<rfloor> < length palette" by linarith
  then have "palette ! nat \<lfloor>rnd * ?n\<rfloor> \<in> set palette" by (rule nth_mem)
  with i0 i1 show ?thesis by (simp add: pickPalette_def Let_def)
qed

lemma draw_advance:
  "(fst (draw textWidth maxW cfg palette rnd now s) = reveal_latch cfg now s \<or>
    fst (draw textWidth maxW cfg palette rnd now s) =
      nextVerse palette rnd now (reveal_latch cfg now s)) \<and>
   (cycleDoneMs (reveal_latch cfg now s) \<noteq> 0 \<and> cycleDoneMs (reveal_latch cfg now s) \<le> now \<longrightarrow>
      fst (draw textWidth maxW cfg palette rnd now s) =
        nextVerse palette rnd now (reveal_latch cfg now s) \<and>
      verseIndex (fst (draw textWidth maxW cfg palette rnd now s)) = (verseIndex s + 1) mod 8 \<and>
      current (fst (draw textWidth maxW cfg palette rnd now s)) =
        verses ! ((verseIndex s + 1) mod 8) \<and>
      accent (fst (draw textWidth maxW cfg palette rnd now s)) = pickPalette palette rnd \<and>
      (palette \<noteq> [] \<and> 0 \<le> rnd \<and> rnd < 1 \<longrightarrow>
         (\<exists>c \<in> set palette. accent (fst (draw textWidth maxW cfg palette rnd now s)) = Some c)) \<and>
      startMs (fst (draw textWidth maxW cfg palette rnd now s)) = now \<and>
      revealDoneMs (fst (draw textWidth maxW cfg palette rnd now s)) = 0 \<and>
      fadeStartMs (fst (draw textWidth maxW cfg palette rnd now s)) = 0 \<and>
      cycleDoneMs (fst (draw textWidth maxW cfg palette rnd now s)) = 0 \<and>
      (msPerChar cfg \<noteq> 0 \<longrightarrow>
         charsVisible cfg now (fst (draw textWidth maxW cfg palette rnd now s)) = 0 \<and>
         charsVisible cfg now (fst (draw textWidth maxW cfg palette rnd now s))
           < totalChars (fst (draw textWidth maxW cfg palette rnd now s))))"
proof -
  let ?s1 = "reveal_latch cfg now s"
  let ?s2 = "fst (draw textWidth maxW cfg palette rnd now s)"
  have a: "?s2 = ?s1 \<or> ?s2 = nextVerse palette rnd now ?s1"
    by (simp add: draw_state cycle_advance_def)
  have vi: "verseIndex ?s1 = verseIndex s"
    by (simp add: reveal_latch_def Let_def)
  have b: "?s2 = nextVerse palette rnd now ?s1 \<and>
      verseIndex ?s2 = (verseIndex s + 1) mod 8 \<and>
      current ?s2 = verses ! ((verseIndex s + 1) mod 8) \<and>
      accent ?s2 = pickPalette palette rnd \<and>
      (palette \<noteq> [] \<and> 0 \<le> rnd \<and> rnd < 1 \<longrightarrow> (\<exists>c \<in> set palette. accent ?s2 = Some c)) \<and>
      startMs ?s2 = now \<and> revealDoneMs ?s2 = 0 \<and> fadeStartMs ?s2 = 0 \<and> cycleDoneMs ?s2 = 0 \<and>
      (msPerChar cfg \<noteq> 0 \<longrightarrow> charsVisible cfg now ?s2 = 0 \<and> charsVisible cfg now ?s2 < totalChars ?s2)"
    if h: "cycleDoneMs ?s1 \<noteq> 0 \<and> cycleDoneMs ?s1 \<le> now"
  proof -
    from h have e: "?s2 = nextVerse palette rnd now ?s1"
      by (simp add: draw_state cycle_advance_def)
    have f: "verseIndex ?s2 = (verseIndex s + 1) mod 8" "current ?s2 = verses ! ((verseIndex s + 1) mod 8)"
      "accent ?s2 = pickPalette palette rnd" "startMs ?s2 = now" "revealDoneMs ?s2 = 0"
      "fadeStartMs ?s2 = 0" "cycleDoneMs ?s2 = 0"
      by (simp_all only: e) (simp_all add: nextVerse_def Let_def vi verses_length)
    have g: "\<exists>c \<in> set palette. accent ?s2 = Some c" if "palette \<noteq> [] \<and> 0 \<le> rnd \<and> rnd < 1"
      using that pickPalette_member [of palette rnd] f(3) by simp
    have cv: "charsVisible cfg now ?s2 = 0"
      by (simp add: charsVisible_def f(4))
    have "charsVisible cfg now ?s2 < totalChars ?s2"
      using totalChars_pos [of ?s2] cv by linarith
    with e f g cv show ?thesis by blast
  qed
  from a b show ?thesis by blast
qed



lemma draw_no_advance:
  assumes "\<not> (cycleDoneMs (reveal_latch cfg now s) \<noteq> 0 \<and> cycleDoneMs (reveal_latch cfg now s) \<le> now)"
  shows "fst (draw textWidth maxW cfg palette rnd now s) = reveal_latch cfg now s \<and>
         verseIndex (fst (draw textWidth maxW cfg palette rnd now s)) = verseIndex s \<and>
         current (fst (draw textWidth maxW cfg palette rnd now s)) = current s \<and>
         accent (fst (draw textWidth maxW cfg palette rnd now s)) = accent s \<and>
         startMs (fst (draw textWidth maxW cfg palette rnd now s)) = startMs s"
proof -
  have e: "fst (draw textWidth maxW cfg palette rnd now s) = reveal_latch cfg now s"
    using assms by (auto simp add: draw_state cycle_advance_def)
  show ?thesis
    by (simp only: e) (simp add: reveal_latch_def Let_def)
qed

lemma cleared_no_advance:
  assumes "cycleDoneMs s = 0" and "0 < holdMs cfg + fadeMs cfg + gapMs cfg"
  shows "\<not> (cycleDoneMs (reveal_latch cfg now s) \<noteq> 0 \<and> cycleDoneMs (reveal_latch cfg now s) \<le> now)"
  using assms by (simp add: reveal_latch_def Let_def)

lemma pickPalette_index:
  assumes "palette \<noteq> []" and "0 \<le> rnd" and "rnd < 1"
  shows "pickPalette palette rnd = Some (palette ! nat \<lfloor>rnd * real (length palette)\<rfloor>)"
proof -
  let ?n = "real (length palette)"
  have n: "0 < ?n" using assms(1) by simp
  have lo: "0 \<le> rnd * ?n" using assms(2) by simp
  have hi: "rnd * ?n < ?n" using assms(3) n by simp
  have i0: "0 \<le> \<lfloor>rnd * ?n\<rfloor>" using lo by simp
  have i1: "\<lfloor>rnd * ?n\<rfloor> < int (length palette)"
    using hi by (simp add: floor_less_iff)
  from i0 i1 show ?thesis by (simp add: pickPalette_def Let_def)
qed

lemma draw_advance_latched:
  assumes "revealDoneMs s \<noteq> 0" and "cycleDoneMs s \<noteq> 0" and "cycleDoneMs s \<le> now"
  shows "fst (draw textWidth maxW cfg palette rnd now s) =
         s\<lparr>verseIndex := (verseIndex s + 1) mod 8,
           current := verses ! ((verseIndex s + 1) mod 8),
           accent := pickPalette palette rnd,
           startMs := now, revealDoneMs := 0, fadeStartMs := 0, cycleDoneMs := 0\<rparr>"
  using assms by (simp add: draw_latched nextVerse_def Let_def verses_length)

subsection \<open>The advance to the next verse\<close>

text \<open>
  Claim C3. A frame ends either in the state the latch left or in \<open>nextVerse\<close> of that
  state, never in between and never two verses further. When the frame sees
  \<open>now\<close> at or after the cycle end, it is \<open>nextVerse\<close>: the index becomes its successor
  modulo the eight verses, the accent is the palette entry at the index
  \<open>\<lfloor>rnd * length\<rfloor>\<close> of a fresh random number, \<open>startMs\<close> is \<open>now\<close>, the three derived
  timestamps are 0 again, and \<open>charsVisible\<close> at this time is 0, below \<open>totalChars\<close>, so
  the reveal starts over; from a state whose timestamps are set, the frame's result is
  that state with exactly these seven fields written. When the frame does not see the
  cycle end, it advances nothing: index, verse, accent and start time stay. A frame on
  a state whose cycle end is not set never advances, so the frame that follows an
  advance keeps the new index: the advance is made once.
\<close>

theorem cycle_advance_once:
  "(fst (draw textWidth maxW cfg palette rnd now s) = reveal_latch cfg now s \<or>
    fst (draw textWidth maxW cfg palette rnd now s) =
      nextVerse palette rnd now (reveal_latch cfg now s)) \<and>
   (cycleDoneMs (reveal_latch cfg now s) \<noteq> 0 \<and> cycleDoneMs (reveal_latch cfg now s) \<le> now \<longrightarrow>
      fst (draw textWidth maxW cfg palette rnd now s) =
        nextVerse palette rnd now (reveal_latch cfg now s) \<and>
      verseIndex (fst (draw textWidth maxW cfg palette rnd now s)) = (verseIndex s + 1) mod 8 \<and>
      current (fst (draw textWidth maxW cfg palette rnd now s)) =
        verses ! ((verseIndex s + 1) mod 8) \<and>
      accent (fst (draw textWidth maxW cfg palette rnd now s)) = pickPalette palette rnd \<and>
      (palette \<noteq> [] \<and> 0 \<le> rnd \<and> rnd < 1 \<longrightarrow>
         (\<exists>c \<in> set palette. accent (fst (draw textWidth maxW cfg palette rnd now s)) = Some c)) \<and>
      startMs (fst (draw textWidth maxW cfg palette rnd now s)) = now \<and>
      revealDoneMs (fst (draw textWidth maxW cfg palette rnd now s)) = 0 \<and>
      fadeStartMs (fst (draw textWidth maxW cfg palette rnd now s)) = 0 \<and>
      cycleDoneMs (fst (draw textWidth maxW cfg palette rnd now s)) = 0 \<and>
      (msPerChar cfg \<noteq> 0 \<longrightarrow>
         charsVisible cfg now (fst (draw textWidth maxW cfg palette rnd now s)) = 0 \<and>
         charsVisible cfg now (fst (draw textWidth maxW cfg palette rnd now s))
           < totalChars (fst (draw textWidth maxW cfg palette rnd now s)))) \<and>
   (\<not> (cycleDoneMs (reveal_latch cfg now s) \<noteq> 0 \<and> cycleDoneMs (reveal_latch cfg now s) \<le> now) \<longrightarrow>
      fst (draw textWidth maxW cfg palette rnd now s) = reveal_latch cfg now s \<and>
      verseIndex (fst (draw textWidth maxW cfg palette rnd now s)) = verseIndex s \<and>
      current (fst (draw textWidth maxW cfg palette rnd now s)) = current s \<and>
      accent (fst (draw textWidth maxW cfg palette rnd now s)) = accent s \<and>
      startMs (fst (draw textWidth maxW cfg palette rnd now s)) = startMs s) \<and>
   (cycleDoneMs (reveal_latch cfg now s) \<noteq> 0 \<and> cycleDoneMs (reveal_latch cfg now s) \<le> now \<and>
    palette \<noteq> [] \<and> 0 \<le> rnd \<and> rnd < 1 \<longrightarrow>
      accent (fst (draw textWidth maxW cfg palette rnd now s)) =
        Some (palette ! nat \<lfloor>rnd * real (length palette)\<rfloor>)) \<and>
   (revealDoneMs s \<noteq> 0 \<and> cycleDoneMs s \<noteq> 0 \<and> cycleDoneMs s \<le> now \<longrightarrow>
      fst (draw textWidth maxW cfg palette rnd now s) =
        s\<lparr>verseIndex := (verseIndex s + 1) mod 8,
          current := verses ! ((verseIndex s + 1) mod 8),
          accent := pickPalette palette rnd,
          startMs := now, revealDoneMs := 0, fadeStartMs := 0, cycleDoneMs := 0\<rparr>) \<and>
   (revealDoneMs s \<noteq> 0 \<and> \<not> (cycleDoneMs s \<noteq> 0 \<and> cycleDoneMs s \<le> now) \<longrightarrow>
      fst (draw textWidth maxW cfg palette rnd now s) = s) \<and>
   (cycleDoneMs s = 0 \<and> 0 < holdMs cfg + fadeMs cfg + gapMs cfg \<longrightarrow>
      fst (draw textWidth maxW cfg palette rnd now s) = reveal_latch cfg now s \<and>
      verseIndex (fst (draw textWidth maxW cfg palette rnd now s)) = verseIndex s) \<and>
   (cycleDoneMs (reveal_latch cfg now s) \<noteq> 0 \<and> cycleDoneMs (reveal_latch cfg now s) \<le> now \<and>
    0 < holdMs cfg + fadeMs cfg + gapMs cfg \<longrightarrow>
      verseIndex (fst (draw textWidth maxW cfg palette rnd' now'
        (fst (draw textWidth maxW cfg palette rnd now s)))) = (verseIndex s + 1) mod 8 \<and>
      current (fst (draw textWidth maxW cfg palette rnd' now'
        (fst (draw textWidth maxW cfg palette rnd now s)))) = verses ! ((verseIndex s + 1) mod 8))"
proof -
  let ?s1 = "reveal_latch cfg now s"
  let ?s2 = "fst (draw textWidth maxW cfg palette rnd now s)"
  let ?g = "cycleDoneMs ?s1 \<noteq> 0 \<and> cycleDoneMs ?s1 \<le> now"
  note core = draw_advance [where textWidth = textWidth and maxW = maxW and cfg = cfg
      and palette = palette and rnd = rnd and now = now and s = s]
  have n1: "\<not> ?g \<longrightarrow> ?s2 = ?s1 \<and> verseIndex ?s2 = verseIndex s \<and> current ?s2 = current s \<and>
      accent ?s2 = accent s \<and> startMs ?s2 = startMs s"
    using draw_no_advance by blast
  have n2: "?g \<and> palette \<noteq> [] \<and> 0 \<le> rnd \<and> rnd < 1 \<longrightarrow>
      accent ?s2 = Some (palette ! nat \<lfloor>rnd * real (length palette)\<rfloor>)"
  proof
    assume h: "?g \<and> palette \<noteq> [] \<and> 0 \<le> rnd \<and> rnd < 1"
    with core have "accent ?s2 = pickPalette palette rnd" by blast
    moreover from h have "pickPalette palette rnd = Some (palette ! nat \<lfloor>rnd * real (length palette)\<rfloor>)"
      using pickPalette_index by blast
    ultimately show "accent ?s2 = Some (palette ! nat \<lfloor>rnd * real (length palette)\<rfloor>)" by simp
  qed
  have n3: "revealDoneMs s \<noteq> 0 \<and> cycleDoneMs s \<noteq> 0 \<and> cycleDoneMs s \<le> now \<longrightarrow>
      ?s2 = s\<lparr>verseIndex := (verseIndex s + 1) mod 8,
          current := verses ! ((verseIndex s + 1) mod 8),
          accent := pickPalette palette rnd,
          startMs := now, revealDoneMs := 0, fadeStartMs := 0, cycleDoneMs := 0\<rparr>"
    using draw_advance_latched by blast
  have n4: "revealDoneMs s \<noteq> 0 \<and> \<not> (cycleDoneMs s \<noteq> 0 \<and> cycleDoneMs s \<le> now) \<longrightarrow> ?s2 = s"
    by (simp add: draw_latched)
  have n5: "cycleDoneMs s = 0 \<and> 0 < holdMs cfg + fadeMs cfg + gapMs cfg \<longrightarrow>
      ?s2 = ?s1 \<and> verseIndex ?s2 = verseIndex s"
    using cleared_no_advance [of s cfg now] draw_no_advance [of cfg now s] by blast
  have n6: "?g \<and> 0 < holdMs cfg + fadeMs cfg + gapMs cfg \<longrightarrow>
      verseIndex (fst (draw textWidth maxW cfg palette rnd' now' ?s2)) = (verseIndex s + 1) mod 8 \<and>
      current (fst (draw textWidth maxW cfg palette rnd' now' ?s2)) = verses ! ((verseIndex s + 1) mod 8)"
  proof
    assume h: "?g \<and> 0 < holdMs cfg + fadeMs cfg + gapMs cfg"
    with core have c: "cycleDoneMs ?s2 = 0" "verseIndex ?s2 = (verseIndex s + 1) mod 8"
      "current ?s2 = verses ! ((verseIndex s + 1) mod 8)"
      by blast+
    from h have p: "0 < holdMs cfg + fadeMs cfg + gapMs cfg" by blast
    note q = draw_no_advance [OF cleared_no_advance [OF c(1) p, of now'],
      where textWidth = textWidth and maxW = maxW and palette = palette and rnd = rnd']
    from q have v: "verseIndex (fst (draw textWidth maxW cfg palette rnd' now' ?s2)) = verseIndex ?s2"
      and w: "current (fst (draw textWidth maxW cfg palette rnd' now' ?s2)) = current ?s2"
      by blast+
    show "verseIndex (fst (draw textWidth maxW cfg palette rnd' now' ?s2)) = (verseIndex s + 1) mod 8 \<and>
      current (fst (draw textWidth maxW cfg palette rnd' now' ?s2)) = verses ! ((verseIndex s + 1) mod 8)"
      by (metis v w c(2) c(3))
  qed
  from core n1 n2 n3 n4 n5 n6 show ?thesis by blast
qed

lemma overlay_init_total: "totalChars (overlay_init CONFIG_palette 0 0) = 77"
  by (simp add: totalChars_def overlay_init_def verses_def buildFullText_def js_def)

lemma overlay_init_visible: "charsVisible CONFIG_verse 2156 (overlay_init CONFIG_palette 0 0) = 77"
  by (simp add: charsVisible_def overlay_init_def CONFIG_verse_def)

lemma overlay_init_visible_early:
  "charsVisible CONFIG_verse 1000 (overlay_init CONFIG_palette 0 0) = 35"
  by (simp add: charsVisible_def overlay_init_def CONFIG_verse_def)

theorem reveal_latch_once_witness:
  "0 < msPerChar CONFIG_verse \<and> 0 \<le> startMs (overlay_init CONFIG_palette 0 0) \<and>
   revealDoneMs (overlay_init CONFIG_palette 0 0) = 0 \<and>
   cycleDoneMs (overlay_init CONFIG_palette 0 0) = 0 \<and>
   0 < holdMs CONFIG_verse + fadeMs CONFIG_verse + gapMs CONFIG_verse \<and>
   charsVisible CONFIG_verse 1000 (overlay_init CONFIG_palette 0 0)
     < totalChars (overlay_init CONFIG_palette 0 0) \<and>
   totalChars (overlay_init CONFIG_palette 0 0)
     \<le> charsVisible CONFIG_verse 2156 (overlay_init CONFIG_palette 0 0) \<and>
   fst (draw mono_width 292 CONFIG_verse CONFIG_palette 0 1000 (overlay_init CONFIG_palette 0 0))
     = overlay_init CONFIG_palette 0 0 \<and>
   revealDoneMs (fst (draw mono_width 292 CONFIG_verse CONFIG_palette 0 2156
     (overlay_init CONFIG_palette 0 0))) = 2156 \<and>
   fadeStartMs (fst (draw mono_width 292 CONFIG_verse CONFIG_palette 0 2156
     (overlay_init CONFIG_palette 0 0))) = 11156 \<and>
   cycleDoneMs (fst (draw mono_width 292 CONFIG_verse CONFIG_palette 0 2156
     (overlay_init CONFIG_palette 0 0))) = 12756 \<and>
   revealDoneMs (draws mono_width 292 CONFIG_verse CONFIG_palette
     [(0, 1000), (0, 2156), (0, 5000), (0, 12000)] (overlay_init CONFIG_palette 0 0)) = 2156 \<and>
   fadeStartMs (draws mono_width 292 CONFIG_verse CONFIG_palette
     [(0, 1000), (0, 2156), (0, 5000), (0, 12000)] (overlay_init CONFIG_palette 0 0)) = 11156 \<and>
   cycleDoneMs (draws mono_width 292 CONFIG_verse CONFIG_palette
     [(0, 1000), (0, 2156), (0, 5000), (0, 12000)] (overlay_init CONFIG_palette 0 0)) = 12756 \<and>
   revealDoneMs (reveal_latch CONFIG_verse 2156 (overlay_init CONFIG_palette 0 0)) = 2156 \<and>
   fadeStartMs (reveal_latch CONFIG_verse 2156 (overlay_init CONFIG_palette 0 0)) = 11156 \<and>
   cycleDoneMs (reveal_latch CONFIG_verse 2156 (overlay_init CONFIG_palette 0 0)) = 12756"
proof -
  let ?s = "overlay_init CONFIG_palette 0 0"
  let ?l = "?s\<lparr>revealDoneMs := 2156, fadeStartMs := 2156 + holdMs CONFIG_verse,
               cycleDoneMs := 2156 + holdMs CONFIG_verse + fadeMs CONFIG_verse + gapMs CONFIG_verse\<rparr>"
  have h1: "0 < msPerChar CONFIG_verse" by (simp add: CONFIG_verse_def)
  have h2: "0 \<le> startMs ?s" by (simp add: overlay_init_def)
  have h3: "revealDoneMs ?s = 0" by (simp add: overlay_init_def)
  have h3': "cycleDoneMs ?s = 0" by (simp add: overlay_init_def)
  have h4: "totalChars ?s \<le> charsVisible CONFIG_verse 2156 ?s"
    by (simp only: overlay_init_total overlay_init_visible)
  have h5: "0 < holdMs CONFIG_verse + fadeMs CONFIG_verse + gapMs CONFIG_verse"
    by (simp add: CONFIG_verse_def)
  have h6: "charsVisible CONFIG_verse 1000 ?s < totalChars ?s"
    by (simp add: overlay_init_total overlay_init_visible_early)
  have b: "\<forall>t \<in> set (map snd [(0 :: real, 1000 :: real)]). charsVisible CONFIG_verse t ?s < totalChars ?s"
    using h6 by simp
  have a: "\<forall>t \<in> set (map snd [(0 :: real, 5000 :: real), (0, 12000)]).
      t < 2156 + holdMs CONFIG_verse + fadeMs CONFIG_verse + gapMs CONFIG_verse"
    by (simp add: CONFIG_verse_def)
  note T = reveal_latch_once [OF h1 h2, where textWidth = mono_width and maxW = 292
      and palette = CONFIG_palette and rnd = 0 and before = "[(0, 1000)]"
      and after = "[(0, 5000), (0, 12000)]"]
  from T [where now = 1000] h3 h3' h6
  have early: "fst (draw mono_width 292 CONFIG_verse CONFIG_palette 0 1000 ?s) = ?s"
    by blast
  from T [where now = 2156] h3 h4 h5
  have d: "fst (draw mono_width 292 CONFIG_verse CONFIG_palette 0 2156 ?s) = ?l"
    by blast
  from T [where now = 2156] h3 h3' h4 h5 a b
  have "draws mono_width 292 CONFIG_verse CONFIG_palette
      ([(0, 1000)] @ [(0, 2156)] @ [(0, 5000), (0, 12000)]) ?s = ?l"
    by blast
  then have r: "draws mono_width 292 CONFIG_verse CONFIG_palette
      [(0, 1000), (0, 2156), (0, 5000), (0, 12000)] ?s = ?l"
    by simp
  from T [where now = 2156] h3 h4
  have l: "revealDoneMs (reveal_latch CONFIG_verse 2156 ?s) = 2156 \<and>
        fadeStartMs (reveal_latch CONFIG_verse 2156 ?s) =
          revealDoneMs (reveal_latch CONFIG_verse 2156 ?s) + holdMs CONFIG_verse \<and>
        cycleDoneMs (reveal_latch CONFIG_verse 2156 ?s) =
          fadeStartMs (reveal_latch CONFIG_verse 2156 ?s) + fadeMs CONFIG_verse + gapMs CONFIG_verse"
    by blast
  then have l': "revealDoneMs (reveal_latch CONFIG_verse 2156 ?s) = 2156 \<and>
        fadeStartMs (reveal_latch CONFIG_verse 2156 ?s) = 11156 \<and>
        cycleDoneMs (reveal_latch CONFIG_verse 2156 ?s) = 12756"
    by (simp add: CONFIG_verse_def)
  have lf: "revealDoneMs ?l = 2156 \<and> fadeStartMs ?l = 11156 \<and> cycleDoneMs ?l = 12756"
    by (simp add: CONFIG_verse_def)
  from h1 h2 h3 h3' h4 h5 h6 early l' lf show ?thesis
    by (simp only: d r)
qed

lemma latched_fields:
  "revealDoneMs (reveal_latch CONFIG_verse 2156 (overlay_init CONFIG_palette 0 0)) = 2156 \<and>
   fadeStartMs (reveal_latch CONFIG_verse 2156 (overlay_init CONFIG_palette 0 0)) = 11156 \<and>
   cycleDoneMs (reveal_latch CONFIG_verse 2156 (overlay_init CONFIG_palette 0 0)) = 12756 \<and>
   verseIndex (reveal_latch CONFIG_verse 2156 (overlay_init CONFIG_palette 0 0)) = 0"
proof -
  have "reveal_latch CONFIG_verse 2156 (overlay_init CONFIG_palette 0 0) =
        (overlay_init CONFIG_palette 0 0)\<lparr>revealDoneMs := 2156,
           fadeStartMs := 2156 + holdMs CONFIG_verse,
           cycleDoneMs := 2156 + holdMs CONFIG_verse + fadeMs CONFIG_verse + gapMs CONFIG_verse\<rparr>"
    by (rule reveal_latch_fires)
       (simp_all only: overlay_init_total overlay_init_visible, simp_all add: overlay_init_def)
  then show ?thesis by (simp add: CONFIG_verse_def overlay_init_def)
qed

theorem alpha_envelope_shape_witness:
  "0 < fadeMs CONFIG_verse \<and>
   alpha_envelope CONFIG_verse 11000
     (reveal_latch CONFIG_verse 2156 (overlay_init CONFIG_palette 0 0)) = 1 \<and>
   alpha_envelope CONFIG_verse 11656
     (reveal_latch CONFIG_verse 2156 (overlay_init CONFIG_palette 0 0)) = 1 / 2 \<and>
   alpha_envelope CONFIG_verse 12500
     (reveal_latch CONFIG_verse 2156 (overlay_init CONFIG_palette 0 0)) = 0"
proof -
  let ?s = "reveal_latch CONFIG_verse 2156 (overlay_init CONFIG_palette 0 0)"
  have h: "0 < fadeMs CONFIG_verse" by (simp add: CONFIG_verse_def)
  have f: "fadeStartMs ?s = 11156" using latched_fields by blast
  have m: "fadeMs CONFIG_verse = 1000" by (simp add: CONFIG_verse_def)
  note T = alpha_envelope_shape [OF h, where s = ?s and textWidth = mono_width and maxW = 292
      and palette = CONFIG_palette and rnd = 0]
  from T [where now = 11000] have "11000 < fadeStartMs ?s \<longrightarrow> alpha_envelope CONFIG_verse 11000 ?s = 1"
    by blast
  then have a: "alpha_envelope CONFIG_verse 11000 ?s = 1" by (simp add: f)
  from T [where now = 11656]
  have "fadeStartMs ?s \<noteq> 0 \<and> fadeStartMs ?s \<le> 11656 \<and> 11656 \<le> fadeStartMs ?s + fadeMs CONFIG_verse \<longrightarrow>
        alpha_envelope CONFIG_verse 11656 ?s = 1 - (11656 - fadeStartMs ?s) / fadeMs CONFIG_verse"
    by blast
  then have b: "alpha_envelope CONFIG_verse 11656 ?s = 1 / 2" by (simp add: f m)
  from T [where now = 12500]
  have "fadeStartMs ?s \<noteq> 0 \<and> fadeStartMs ?s + fadeMs CONFIG_verse \<le> 12500 \<longrightarrow>
        alpha_envelope CONFIG_verse 12500 ?s = 0"
    by blast
  then have c: "alpha_envelope CONFIG_verse 12500 ?s = 0" by (simp add: f m)
  from h a b c show ?thesis by blast
qed

lemma first_latch_frame:
  "fst (draw mono_width 292 CONFIG_verse CONFIG_palette 0 2156 (overlay_init CONFIG_palette 0 0)) =
   reveal_latch CONFIG_verse 2156 (overlay_init CONFIG_palette 0 0)"
  using latched_fields by (simp add: draw_state cycle_advance_def)

theorem cycle_advance_once_witness:
  "cycleDoneMs (reveal_latch CONFIG_verse 12756
     (fst (draw mono_width 292 CONFIG_verse CONFIG_palette 0 2156
        (overlay_init CONFIG_palette 0 0)))) \<noteq> 0 \<and>
   cycleDoneMs (reveal_latch CONFIG_verse 12756
     (fst (draw mono_width 292 CONFIG_verse CONFIG_palette 0 2156
        (overlay_init CONFIG_palette 0 0)))) \<le> 12756 \<and>
   CONFIG_palette \<noteq> [] \<and> (0 :: real) \<le> 1 / 2 \<and> (1 / 2 :: real) < 1 \<and>
   0 < holdMs CONFIG_verse + fadeMs CONFIG_verse + gapMs CONFIG_verse \<and>
   verseIndex (fst (draw mono_width 292 CONFIG_verse CONFIG_palette (1 / 2) 12000
     (fst (draw mono_width 292 CONFIG_verse CONFIG_palette 0 2156
        (overlay_init CONFIG_palette 0 0))))) = 0 \<and>
   verseIndex (fst (draw mono_width 292 CONFIG_verse CONFIG_palette (1 / 2) 12756
     (fst (draw mono_width 292 CONFIG_verse CONFIG_palette 0 2156
        (overlay_init CONFIG_palette 0 0))))) = 1 \<and>
   accent (fst (draw mono_width 292 CONFIG_verse CONFIG_palette (1 / 2) 12756
     (fst (draw mono_width 292 CONFIG_verse CONFIG_palette 0 2156
        (overlay_init CONFIG_palette 0 0))))) = Some \<lparr>cname = ''Crystal'', hex = ''#0E5E5E''\<rparr> \<and>
   startMs (fst (draw mono_width 292 CONFIG_verse CONFIG_palette (1 / 2) 12756
     (fst (draw mono_width 292 CONFIG_verse CONFIG_palette 0 2156
        (overlay_init CONFIG_palette 0 0))))) = 12756 \<and>
   cycleDoneMs (fst (draw mono_width 292 CONFIG_verse CONFIG_palette (1 / 2) 12756
     (fst (draw mono_width 292 CONFIG_verse CONFIG_palette 0 2156
        (overlay_init CONFIG_palette 0 0))))) = 0 \<and>
   verseIndex (fst (draw mono_width 292 CONFIG_verse CONFIG_palette (1 / 4) 12800
     (fst (draw mono_width 292 CONFIG_verse CONFIG_palette (1 / 2) 12756
        (fst (draw mono_width 292 CONFIG_verse CONFIG_palette 0 2156
           (overlay_init CONFIG_palette 0 0))))))) = 1"
proof -
  let ?s = "fst (draw mono_width 292 CONFIG_verse CONFIG_palette 0 2156 (overlay_init CONFIG_palette 0 0))"
  have lf: "revealDoneMs ?s = 2156" "cycleDoneMs ?s = 12756" "verseIndex ?s = 0"
    using latched_fields by (simp_all only: first_latch_frame)
  have r: "revealDoneMs ?s \<noteq> 0" by (simp add: lf)
  have l: "reveal_latch CONFIG_verse t ?s = ?s" for t
    using r by (simp add: reveal_latch_idle)
  have h1: "cycleDoneMs (reveal_latch CONFIG_verse 12756 ?s) \<noteq> 0" by (simp add: l lf)
  have h2: "cycleDoneMs (reveal_latch CONFIG_verse 12756 ?s) \<le> 12756" by (simp add: l lf)
  have h3: "CONFIG_palette \<noteq> []" by (simp add: CONFIG_palette_def)
  have h4: "(0 :: real) \<le> 1 / 2" "(1 / 2 :: real) < 1" by simp_all
  have h5: "0 < holdMs CONFIG_verse + fadeMs CONFIG_verse + gapMs CONFIG_verse"
    by (simp add: CONFIG_verse_def)
  have g: "\<not> (cycleDoneMs (reveal_latch CONFIG_verse 12000 ?s) \<noteq> 0 \<and>
              cycleDoneMs (reveal_latch CONFIG_verse 12000 ?s) \<le> 12000)"
    by (simp add: l lf)
  note T = cycle_advance_once [where cfg = CONFIG_verse and s = ?s
      and textWidth = mono_width and maxW = 292 and palette = CONFIG_palette and rnd = "1 / 2"
      and rnd' = "1 / 4" and now' = 12800]
  from T [where now = 12000] g
  have "verseIndex (fst (draw mono_width 292 CONFIG_verse CONFIG_palette (1 / 2) 12000 ?s))
          = verseIndex ?s"
    by blast
  then have a: "verseIndex (fst (draw mono_width 292 CONFIG_verse CONFIG_palette (1 / 2) 12000 ?s)) = 0"
    by (simp only: lf)
  from T [where now = 12756] h1 h2
  have "verseIndex (fst (draw mono_width 292 CONFIG_verse CONFIG_palette (1 / 2) 12756 ?s))
          = (verseIndex ?s + 1) mod 8 \<and>
        startMs (fst (draw mono_width 292 CONFIG_verse CONFIG_palette (1 / 2) 12756 ?s)) = 12756 \<and>
        cycleDoneMs (fst (draw mono_width 292 CONFIG_verse CONFIG_palette (1 / 2) 12756 ?s)) = 0"
    by blast
  then have b: "verseIndex (fst (draw mono_width 292 CONFIG_verse CONFIG_palette (1 / 2) 12756 ?s)) = 1 \<and>
        startMs (fst (draw mono_width 292 CONFIG_verse CONFIG_palette (1 / 2) 12756 ?s)) = 12756 \<and>
        cycleDoneMs (fst (draw mono_width 292 CONFIG_verse CONFIG_palette (1 / 2) 12756 ?s)) = 0"
    by (simp add: lf)
  from T [where now = 12756] h1 h2 h3 h4
  have "accent (fst (draw mono_width 292 CONFIG_verse CONFIG_palette (1 / 2) 12756 ?s)) =
          Some (CONFIG_palette ! nat \<lfloor>1 / 2 * real (length CONFIG_palette)\<rfloor>)"
    by blast
  then have c: "accent (fst (draw mono_width 292 CONFIG_verse CONFIG_palette (1 / 2) 12756 ?s)) =
          Some \<lparr>cname = ''Crystal'', hex = ''#0E5E5E''\<rparr>"
    by (simp add: CONFIG_palette_def)
  from T [where now = 12756] h1 h2 h5
  have "verseIndex (fst (draw mono_width 292 CONFIG_verse CONFIG_palette (1 / 4) 12800
          (fst (draw mono_width 292 CONFIG_verse CONFIG_palette (1 / 2) 12756 ?s))))
          = (verseIndex ?s + 1) mod 8"
    by blast
  then have d: "verseIndex (fst (draw mono_width 292 CONFIG_verse CONFIG_palette (1 / 4) 12800
          (fst (draw mono_width 292 CONFIG_verse CONFIG_palette (1 / 2) 12756 ?s)))) = 1"
    by (simp add: lf)
  from h1 h2 h3 h4 h5 a b c d show ?thesis by blast
qed

lemma join_sp_snoc: "g \<noteq> [] \<Longrightarrow> join_sp (g @ [w]) = join_sp g @ [32] @ w"
  by (induction g rule: join_sp.induct) simp_all

lemma wrap_words_prefix:
  "wrap_words tw mw ws line lines =
     (lines @ fst (wrap_words tw mw ws line []), snd (wrap_words tw mw ws line []))"
proof (induction ws arbitrary: line lines)
  case Nil
  show ?case by simp
next
  case (Cons w ws)
  let ?test = "if line \<noteq> [] then line @ [32] @ w else w"
  show ?case
  proof (cases "tw ?test \<le> mw")
    case True
    then show ?thesis using Cons.IH [of ?test lines] by (simp add: Let_def)
  next
    case False
    show ?thesis
    proof (cases "line = []")
      case True
      with False show ?thesis using Cons.IH [of w lines] by (simp add: Let_def)
    next
      case ne: False
      have a: "wrap_words tw mw (w # ws) line lines = wrap_words tw mw ws w (lines @ [line])"
        using False ne by (simp add: Let_def)
      have b: "wrap_words tw mw (w # ws) line [] = wrap_words tw mw ws w [line]"
        using False ne by (simp add: Let_def)
      show ?thesis
        by (simp only: a b) (simp add: Cons.IH [of w "lines @ [line]"] Cons.IH [of w "[line]"])
    qed
  qed
qed

lemma wrap_paragraphs_concat:
  "wrap_paragraphs tw mw paras lines = lines @ concat (map (para_lines tw mw) paras)"
proof (induction paras arbitrary: lines)
  case Nil
  show ?case by simp
next
  case (Cons para paras)
  show ?case
  proof (cases "trim para = []")
    case True
    then show ?thesis by (simp add: Cons.IH para_lines_def)
  next
    case False
    obtain ls l where r: "wrap_words tw mw (split_ws para) [] [] = (ls, l)"
      by (cases "wrap_words tw mw (split_ws para) [] []")
    have r': "wrap_words tw mw (split_ws para) [] lines = (lines @ ls, l)"
      using wrap_words_prefix [of tw mw "split_ws para" "[]" lines] r by simp
    show ?thesis
      using False by (simp add: Cons.IH para_lines_def r r')
  qed
qed

lemma wrap_words_groups:
  assumes "line = join_sp g" and "line = [] \<longrightarrow> g = []"
  shows "\<exists>gs' g'. wrap_words tw mw ws line [] = (map join_sp gs', join_sp g') \<and>
           (join_sp g' = [] \<longrightarrow> g' = []) \<and> [] \<notin> set (map join_sp gs') \<and>
           nonempty (concat gs' @ g') = nonempty g @ nonempty ws"
  using assms
proof (induction ws arbitrary: line g)
  case Nil
  show ?case
    using Nil.prems by (intro exI [of _ "[]"] exI [of _ g]) simp
next
  case (Cons w ws)
  let ?test = "if line \<noteq> [] then line @ [32] @ w else w"
  let ?gw = "if w = [] then [] else [w]"
  have gw: "w = join_sp ?gw" "w = [] \<longrightarrow> ?gw = []" "nonempty ?gw = nonempty [w]"
    by simp_all
  show ?case
  proof (cases "line = []")
    case True
    then have g: "g = []" using Cons.prems by simp
    have "wrap_words tw mw (w # ws) line [] = wrap_words tw mw ws w []"
      using True by (simp add: Let_def)
    moreover obtain gs' g' where
      "wrap_words tw mw ws w [] = (map join_sp gs', join_sp g')"
      "join_sp g' = [] \<longrightarrow> g' = []" "[] \<notin> set (map join_sp gs')"
      "nonempty (concat gs' @ g') = nonempty ?gw @ nonempty ws"
      using Cons.IH [OF gw(1,2)] by blast
    ultimately show ?thesis using g gw(3) by (intro exI [of _ gs'] exI [of _ g']) simp
  next
    case False
    then have gne: "g \<noteq> []" using Cons.prems by auto
    have t: "?test = join_sp (g @ [w])"
      using False Cons.prems(1) join_sp_snoc [OF gne] by simp
    have tne: "?test \<noteq> []" using False by simp
    show ?thesis
    proof (cases "tw ?test \<le> mw")
      case True
      then have "wrap_words tw mw (w # ws) line [] = wrap_words tw mw ws ?test []"
        by (simp add: Let_def)
      moreover obtain gs' g' where
        "wrap_words tw mw ws ?test [] = (map join_sp gs', join_sp g')"
        "join_sp g' = [] \<longrightarrow> g' = []" "[] \<notin> set (map join_sp gs')"
        "nonempty (concat gs' @ g') = nonempty (g @ [w]) @ nonempty ws"
        using Cons.IH [OF t] tne by blast
      ultimately show ?thesis by (intro exI [of _ gs'] exI [of _ g']) simp
    next
      case nf: False
      have "wrap_words tw mw (w # ws) line [] = wrap_words tw mw ws w [line]"
        using nf False by (simp add: Let_def)
      then have a: "wrap_words tw mw (w # ws) line [] =
          (line # fst (wrap_words tw mw ws w []), snd (wrap_words tw mw ws w []))"
        using wrap_words_prefix [of tw mw ws w "[line]"] by simp
      obtain gs' g' where r:
        "wrap_words tw mw ws w [] = (map join_sp gs', join_sp g')"
        "join_sp g' = [] \<longrightarrow> g' = []" "[] \<notin> set (map join_sp gs')"
        "nonempty (concat gs' @ g') = nonempty ?gw @ nonempty ws"
        using Cons.IH [OF gw(1,2)] by blast
      have "wrap_words tw mw (w # ws) line [] = (map join_sp (g # gs'), join_sp g')"
        using a r(1) Cons.prems(1) by simp
      moreover have "[] \<notin> set (map join_sp (g # gs'))"
        using r(3) False Cons.prems(1) by auto
      moreover have "nonempty (concat (g # gs') @ g') = nonempty g @ nonempty (w # ws)"
        using r(4) gw(3) by simp
      ultimately show ?thesis using r(2) by blast
    qed
  qed
qed

lemma para_lines_groups:
  assumes "trim para \<noteq> []"
  shows "\<exists>gs. para_lines tw mw para = map join_sp gs \<and> [] \<notin> set (para_lines tw mw para) \<and>
           nonempty (concat gs) = nonempty (split_ws para)"
proof -
  obtain gs' g' where r:
    "wrap_words tw mw (split_ws para) [] [] = (map join_sp gs', join_sp g')"
    "join_sp g' = [] \<longrightarrow> g' = []" "[] \<notin> set (map join_sp gs')"
    "nonempty (concat gs' @ g') = nonempty [] @ nonempty (split_ws para)"
    using wrap_words_groups [of "[]" "[]" tw mw "split_ws para"] by auto
  show ?thesis
  proof (cases "join_sp g' = []")
    case True
    then have "g' = []" using r(2) by simp
    then have "nonempty (concat gs') = nonempty (split_ws para)" using r(4) by simp
    moreover have "para_lines tw mw para = map join_sp gs'"
      using assms True by (simp add: para_lines_def r(1))
    ultimately show ?thesis using r(3) by auto
  next
    case False
    have "para_lines tw mw para = map join_sp (gs' @ [g'])"
      using assms False by (simp add: para_lines_def r(1))
    moreover have "nonempty (concat (gs' @ [g'])) = nonempty (split_ws para)"
      using r(4) by simp
    moreover have "[] \<notin> set (map join_sp (gs' @ [g']))" using r(3) False by auto
    ultimately show ?thesis by metis
  qed
qed

lemma wrap_words_width:
  assumes "line = [] \<or> tw line \<le> mw \<or> line \<in> W" and "set ws \<subseteq> W"
  shows "(\<forall>l \<in> set (fst (wrap_words tw mw ws line [])). l = [] \<or> tw l \<le> mw \<or> l \<in> W) \<and>
         (snd (wrap_words tw mw ws line []) = [] \<or> tw (snd (wrap_words tw mw ws line [])) \<le> mw \<or>
          snd (wrap_words tw mw ws line []) \<in> W)"
  using assms
proof (induction ws arbitrary: line)
  case Nil
  then show ?case by simp
next
  case (Cons w ws)
  let ?test = "if line \<noteq> [] then line @ [32] @ w else w"
  from Cons.prems have w: "w \<in> W" and ws: "set ws \<subseteq> W" by simp_all
  show ?case
  proof (cases "tw ?test \<le> mw")
    case True
    then have e: "wrap_words tw mw (w # ws) line [] = wrap_words tw mw ws ?test []"
      by (simp add: Let_def)
    have "?test = [] \<or> tw ?test \<le> mw \<or> ?test \<in> W" using True by blast
    from Cons.IH [OF this ws] show ?thesis unfolding e by blast
  next
    case False
    have p: "w = [] \<or> tw w \<le> mw \<or> w \<in> W" using w by blast
    show ?thesis
    proof (cases "line = []")
      case True
      with False have e: "wrap_words tw mw (w # ws) line [] = wrap_words tw mw ws w []"
        by (simp add: Let_def)
      from Cons.IH [OF p ws] show ?thesis unfolding e by blast
    next
      case ne: False
      have "wrap_words tw mw (w # ws) line [] = wrap_words tw mw ws w [line]"
        using False ne by (simp add: Let_def)
      then have e: "wrap_words tw mw (w # ws) line [] =
          (line # fst (wrap_words tw mw ws w []), snd (wrap_words tw mw ws w []))"
        using wrap_words_prefix [of tw mw ws w "[line]"] by simp
      from Cons.IH [OF p ws] Cons.prems(1) show ?thesis unfolding e by auto
    qed
  qed
qed

lemma para_lines_width:
  assumes "trim para \<noteq> []" and "l \<in> set (para_lines tw mw para)"
  shows "l \<noteq> [] \<and> (tw l \<le> mw \<or> l \<in> set (split_ws para))"
proof -
  have ne: "l \<noteq> []" using para_lines_groups [OF assms(1), of tw mw] assms(2) by auto
  obtain ls ln where r: "wrap_words tw mw (split_ws para) [] [] = (ls, ln)"
    by (cases "wrap_words tw mw (split_ws para) [] []")
  have "(\<forall>l \<in> set ls. l = [] \<or> tw l \<le> mw \<or> l \<in> set (split_ws para)) \<and>
        (ln = [] \<or> tw ln \<le> mw \<or> ln \<in> set (split_ws para))"
    using wrap_words_width [of "[]" tw mw "set (split_ws para)" "split_ws para"] r by simp
  moreover have "l \<in> set ls \<or> l = ln"
    using assms by (auto simp add: para_lines_def r split: if_splits)
  ultimately show ?thesis using ne by blast
qed

lemma split_ws_words: "w \<in> set (split_ws str) \<Longrightarrow> c \<in> set w \<Longrightarrow> \<not> is_ws c"
proof (induction str arbitrary: w rule: split_ws.induct)
  case 1
  then show ?case by simp
next
  case (2 d ds)
  show ?case
  proof (cases "is_ws d")
    case True
    with "2.prems" have "w = [] \<or> w \<in> set (split_ws (dropWhile is_ws ds))" by simp
    with "2.IH"(1) [OF True] "2.prems"(2) show ?thesis by auto
  next
    case False
    show ?thesis
    proof (cases "split_ws ds")
      case Nil
      with False "2.prems" show ?thesis by simp
    next
      case (Cons v vs)
      with False "2.prems"(1) have "w = d # v \<or> w \<in> set vs" by simp
      then show ?thesis
      proof
        assume "w = d # v"
        with "2.prems"(2) have "c = d \<or> c \<in> set v" by simp
        moreover have "v \<in> set (split_ws ds)" using Cons by simp
        ultimately show ?thesis using False "2.IH"(2) [OF False] by blast
      next
        assume "w \<in> set vs"
        then have "w \<in> set (split_ws ds)" using Cons by simp
        then show ?thesis using "2.IH"(2) [OF False] "2.prems"(2) by blast
      qed
    qed
  qed
qed

subsection \<open>Line wrapping\<close>

text \<open>
  Claim C10, as stated, has no line wider than the maximum. A word that alone is wider
  than the maximum cannot be broken and becomes a line of its own: with every character
  one unit wide and a maximum of 3, the text \<open>abcdef\<close> is wrapped to the single line
  \<open>abcdef\<close> of width 6.
\<close>

theorem wrapLines_overlong_word:
  "wrapLines mono_width (js ''abcdef'') 3 = [js ''abcdef''] \<and>
   3 < mono_width (js ''abcdef'')"
  by (simp add: wrapLines_def js_def mono_width_def trim_def is_ws_def)

text \<open>
  Claim C10, amended. The result is, paragraph after paragraph, the lines of each
  paragraph. A paragraph of nothing but whitespace gives exactly one empty line. Any
  other paragraph gives non-empty lines, each of them whole words of the paragraph
  joined by single spaces, the non-empty words all present and in order; words hold no
  whitespace, so every break is at whitespace. Each such line is at most the maximum
  wide, unless it is a single word of the paragraph, which is then kept unbroken.
\<close>

theorem wrapLines_whole_words:
  "wrapLines tw str mw = concat (map (para_lines tw mw) (split_nl str)) \<and>
   (trim para = [] \<longrightarrow> para_lines tw mw para = [[]]) \<and>
   (trim para \<noteq> [] \<longrightarrow>
      (\<exists>gs. para_lines tw mw para = map join_sp gs \<and>
            nonempty (concat gs) = nonempty (split_ws para)) \<and>
      (\<forall>l \<in> set (para_lines tw mw para). l \<noteq> [] \<and> (tw l \<le> mw \<or> l \<in> set (split_ws para)))) \<and>
   (\<forall>w \<in> set (split_ws para). \<forall>c \<in> set w. \<not> is_ws c)"
proof -
  have a: "wrapLines tw str mw = concat (map (para_lines tw mw) (split_nl str))"
    by (simp add: wrapLines_def wrap_paragraphs_concat)
  have b: "trim para = [] \<longrightarrow> para_lines tw mw para = [[]]"
    by (simp add: para_lines_def)
  have c: "\<exists>gs. para_lines tw mw para = map join_sp gs \<and>
            nonempty (concat gs) = nonempty (split_ws para)" if "trim para \<noteq> []"
    using para_lines_groups [OF that, of tw mw] by blast
  have d: "\<forall>l \<in> set (para_lines tw mw para). l \<noteq> [] \<and> (tw l \<le> mw \<or> l \<in> set (split_ws para))"
    if "trim para \<noteq> []"
    using para_lines_width [OF that] by blast
  have e: "\<forall>w \<in> set (split_ws para). \<forall>c \<in> set w. \<not> is_ws c"
    using split_ws_words by blast
  from a b c d e show ?thesis by blast
qed

theorem wrapLines_whole_words_witness:
  "trim (js ''ab cd  ef'') \<noteq> [] \<and>
   wrapLines mono_width (js ''ab cd  ef'' @ [10, 10] @ js ''gh'') 5
     = [js ''ab cd'', js ''ef'', [], js ''gh''] \<and>
   mono_width (js ''ab cd'') \<le> 5 \<and> mono_width (js ''ef'') \<le> 5"
proof -
  let ?p = "js ''ab cd  ef''"
  let ?s = "js ''ab cd  ef'' @ [10, 10] @ js ''gh''"
  have h: "trim ?p \<noteq> []" by (simp add: trim_def js_def is_ws_def)
  note T = wrapLines_whole_words [where tw = mono_width and mw = 5 and str = ?s and para = ?p]
  from T have "wrapLines mono_width ?s 5 = concat (map (para_lines mono_width 5) (split_nl ?s))"
    by blast
  then have a: "wrapLines mono_width ?s 5 = [js ''ab cd'', js ''ef'', [], js ''gh'']"
    by (simp add: para_lines_def js_def mono_width_def trim_def is_ws_def)
  have p: "para_lines mono_width 5 ?p = [js ''ab cd'', js ''ef'']"
    by (simp add: para_lines_def js_def mono_width_def trim_def is_ws_def)
  from T h have "\<forall>l \<in> set (para_lines mono_width 5 ?p).
      l \<noteq> [] \<and> (mono_width l \<le> 5 \<or> l \<in> set (split_ws ?p))"
    by blast
  then have b: "mono_width (js ''ab cd'') \<le> 5 \<or> js ''ab cd'' \<in> set (split_ws ?p)"
    and c: "mono_width (js ''ef'') \<le> 5 \<or> js ''ef'' \<in> set (split_ws ?p)"
    by (simp_all add: p)
  have w: "mono_width (js ''ab cd'') \<le> 5" "mono_width (js ''ef'') \<le> 5"
    by (simp_all add: js_def mono_width_def)
  from h a w show ?thesis by blast
qed

end
